theory Spec2Isabelle
  imports Complex_Main "HOL-Library.Log_Nat" "HOL-Library.Sublist" "HOL-Library.AList"
begin

section \<open>Python numbers\<close>

text \<open>
  The tool \<^verbatim>\<open>test_ws_analysis.py\<close> computes with the numbers that \<^verbatim>\<open>json.loads\<close> returns:
  Python ints, which are unbounded and exact, and Python floats (IEEE 754 binary64).
  A finite float is modelled by the rational number it denotes, and every float operation
  is the exact operation followed by rounding to the nearest binary64 value, ties to even
  (\<open>fl64\<close>). Below the normal range the spacing of the values stays \<open>2 ^ -1074\<close>.
  Infinities, NaN, the sign of zero, float overflow and ints beyond the float range (whose
  conversion to a float raises \<^verbatim>\<open>OverflowError\<close>) are outside the model.
\<close>

text \<open>\<open>rhe_div n d\<close> is the quotient \<open>n / d\<close> (for \<open>0 < d\<close>) rounded to the nearest integer,
  a tie going to the even neighbour.\<close>

definition rhe_div :: "int \<Rightarrow> int \<Rightarrow> int" where
  "rhe_div n d =
     (let f = n div d; r = 2 * (n mod d)
      in if r < d then f else if d < r then f + 1 else if even f then f else f + 1)"

definition round_half_even :: "rat \<Rightarrow> int" where
  "round_half_even r = (case quotient_of r of (p, q) \<Rightarrow> rhe_div p q)"

definition pow2 :: "int \<Rightarrow> rat" where
  "pow2 k = (if 0 \<le> k then of_int (2 ^ nat k) else 1 / of_int (2 ^ nat (- k)))"

text \<open>\<open>ilog2 x\<close> is the exponent \<open>e\<close> with \<open>2 ^ e \<le> x < 2 ^ (e + 1)\<close>, for \<open>0 < x\<close>.\<close>

definition ilog2 :: "rat \<Rightarrow> int" where
  "ilog2 x =
     (let (p, q) = quotient_of x;
          d = bitlen p - bitlen q
      in if pow2 d \<le> x then d else d - 1)"

definition fl64 :: "rat \<Rightarrow> rat" where
  "fl64 x =
     (if x = 0 then 0
      else let k = min (52 - ilog2 \<bar>x\<bar>) 1074; p = pow2 k
           in sgn x * of_int (round_half_even (\<bar>x\<bar> * p)) / p)"

text \<open>A number as \<^verbatim>\<open>json.loads\<close> returns it: a JSON number without fraction and exponent is
  an int, every other one a float.\<close>

datatype pynum = PyInt int | PyFloat rat

fun num_val :: "pynum \<Rightarrow> rat" where
  "num_val (PyInt i) = of_int i"
| "num_val (PyFloat x) = x"

text \<open>\<^verbatim>\<open>float(n)\<close>: an int converts to the nearest float.\<close>

fun to_float :: "pynum \<Rightarrow> rat" where
  "to_float (PyInt i) = fl64 (of_int i)"
| "to_float (PyFloat x) = x"

text \<open>\<^verbatim>\<open>a - b\<close>: exact on two ints; otherwise an int operand is converted to a float and
  the difference of the two floats is rounded.\<close>

fun num_sub :: "pynum \<Rightarrow> pynum \<Rightarrow> pynum" where
  "num_sub (PyInt a) (PyInt b) = PyInt (a - b)"
| "num_sub a b = PyFloat (fl64 (to_float a - to_float b))"

text \<open>\<^verbatim>\<open>round(x, 6)\<close>: an int is returned as it is; the exact value of a float is rounded
  half-even to six decimals and the decimal result is converted back to the nearest
  float.\<close>

fun py_round6 :: "pynum \<Rightarrow> pynum" where
  "py_round6 (PyInt i) = PyInt i"
| "py_round6 (PyFloat x) = PyFloat (fl64 (of_int (round_half_even (x * 10 ^ 6)) / 10 ^ 6))"

text \<open>\<^verbatim>\<open>m / n\<close> on two ints (here always two lengths) is the correctly rounded quotient;
  \<^verbatim>\<open>a - b\<close> and \<^verbatim>\<open>a * b\<close> on floats, also used where one operand is a small int
  literal, which converts exactly.\<close>

definition int_truediv :: "nat \<Rightarrow> nat \<Rightarrow> rat" where
  "int_truediv m n = fl64 (of_nat m / of_nat n)"

definition float_sub :: "rat \<Rightarrow> rat \<Rightarrow> rat" where
  "float_sub a b = fl64 (a - b)"

definition float_mul :: "rat \<Rightarrow> rat \<Rightarrow> rat" where
  "float_mul a b = fl64 (a * b)"

text \<open>\<^verbatim>\<open>len(set(xs))\<close> on numbers: an int and a float of the same value are equal and have
  the same hash, so that the set counts values.\<close>

definition count_distinct :: "pynum list \<Rightarrow> nat" where
  "count_distinct xs = card (set (map num_val xs))"

text \<open>\<^verbatim>\<open>statistics.mean\<close> sums exactly and divides exactly; the result is an int when all
  data are ints and the quotient is whole, and the quotient rounded to a float
  otherwise.\<close>

fun is_int :: "pynum \<Rightarrow> bool" where
  "is_int (PyInt i) = True"
| "is_int (PyFloat x) = False"

definition mean :: "pynum list \<Rightarrow> pynum" where
  "mean xs =
     (let m = sum_list (map num_val xs) / of_nat (length xs)
      in if list_all is_int xs \<and> m = of_int \<lfloor>m\<rfloor> then PyInt \<lfloor>m\<rfloor> else PyFloat (fl64 m))"

text \<open>The float literals of the source.\<close>

definition lit_0_5 :: rat where "lit_0_5 = fl64 (5 / 10)"
definition lit_0_3 :: rat where "lit_0_3 = fl64 (3 / 10)"
definition lit_0_95 :: rat where "lit_0_95 = fl64 (95 / 100)"

subsection \<open>Printing numbers\<close>

text \<open>\<^verbatim>\<open>f"{x:.kf}"\<close>: the exact value of the float rounded half-even to \<open>k\<close> decimals.\<close>

definition digit_char :: "int \<Rightarrow> char" where
  "digit_char d = char_of (48 + d)"

function dec_digits :: "int \<Rightarrow> string" where
  "dec_digits n = (if n < 10 then [digit_char n] else dec_digits (n div 10) @ [digit_char (n mod 10)])"
  by pat_completeness auto
termination
  by (relation "measure nat") auto

declare dec_digits.simps [simp del]

fun frac_digits :: "nat \<Rightarrow> int \<Rightarrow> string" where
  "frac_digits 0 m = []"
| "frac_digits (Suc k) m = frac_digits k (m div 10) @ [digit_char (m mod 10)]"

definition format_f :: "nat \<Rightarrow> rat \<Rightarrow> string" where
  "format_f k x =
     (let m = round_half_even (\<bar>x\<bar> * 10 ^ k)
      in (if x < 0 then ''-'' else '''') @ dec_digits (m div 10 ^ k) @
         (if k = 0 then '''' else ''.'' @ frac_digits k (m mod 10 ^ k)))"

text \<open>\<^verbatim>\<open>str(i)\<close> of an int.\<close>

definition int_str :: "int \<Rightarrow> string" where
  "int_str i = (if i < 0 then ''-'' @ dec_digits (- i) else dec_digits i)"

section \<open>Data\<close>

text \<open>
  A value as \<^verbatim>\<open>json.loads\<close> returns it is a scalar (\<^verbatim>\<open>None\<close>, a bool, a number, a string)
  or a container (a list or a dict). The program never looks into a container that it
  finds in a tick, so that a container is modelled without its contents. Strings are
  UTF-8 byte sequences (a string with a lone surrogate, which has no encoding, is outside
  the model).

  A tick is the JSON object of one inbound message, read at the six keys of the message
  schema. A key may be absent (\<open>None\<close>); a key that is present holds any JSON value: the
  program does not check the types of the schema.
\<close>

datatype scalar = SNull | SBool bool | SNum pynum | SStr string

datatype json = Scalar scalar | Container

record tick =
  mtype :: "json option"
  symbol :: "json option"
  bid :: "json option"
  ask :: "json option"
  timestamp :: "json option"
  lp :: "json option"

datatype py_error =
    KeyError string | AttributeError | TypeError | ValueError | OverflowError | OSError
  | ZeroDivisionError | UnicodeDecodeError | RecursionError | OtherError

text \<open>
  Two library functions depend on the platform and are parameters of the model:
  \<^verbatim>\<open>datetime.fromtimestamp\<close>, which raises \<^verbatim>\<open>ValueError\<close>, \<^verbatim>\<open>OverflowError\<close> or \<^verbatim>\<open>OSError\<close>
  for a number outside the range that the platform and the time zone support (\<open>None\<close>
  stands for success), and the text that \<^verbatim>\<open>str\<close> gives for a float (its shortest
  representation).
\<close>

record platform =
  fromtimestamp :: "pynum \<Rightarrow> py_error option"
  float_repr :: "rat \<Rightarrow> string"

text \<open>
  Dictionary keys and set elements are compared with \<^verbatim>\<open>==\<close> (and hashed accordingly):
  \<^verbatim>\<open>1\<close>, \<^verbatim>\<open>1.0\<close> and \<^verbatim>\<open>True\<close> are one key. \<open>key_of\<close> maps a scalar to its class;
  a container is unhashable.
\<close>

datatype pykey = KNone | KNum rat | KStr string

fun key_of :: "scalar \<Rightarrow> pykey" where
  "key_of SNull = KNone"
| "key_of (SBool b) = KNum (if b then 1 else 0)"
| "key_of (SNum n) = KNum (num_val n)"
| "key_of (SStr s) = KStr s"

fun hash_key :: "json \<Rightarrow> py_error + pykey" where
  "hash_key (Scalar s) = Inr (key_of s)"
| "hash_key Container = Inl TypeError"

text \<open>The operand of an arithmetic operation: a number, or a bool (a subclass of int).\<close>

fun as_num :: "json \<Rightarrow> pynum option" where
  "as_num (Scalar (SNum n)) = Some n"
| "as_num (Scalar (SBool b)) = Some (PyInt (if b then 1 else 0))"
| "as_num j = None"

text \<open>\<^verbatim>\<open>a - b\<close> on two JSON values raises \<^verbatim>\<open>TypeError\<close> unless both are numbers.\<close>

definition py_sub :: "json \<Rightarrow> json \<Rightarrow> py_error + pynum" where
  "py_sub a b =
     (case as_num a of
        None \<Rightarrow> Inl TypeError
      | Some x \<Rightarrow> (case as_num b of None \<Rightarrow> Inl TypeError | Some y \<Rightarrow> Inr (num_sub x y)))"

text \<open>\<^verbatim>\<open>f"{x:.5f}"\<close> on a JSON value: a number is printed, a string has no format code
  \<^verbatim>\<open>f\<close> (\<^verbatim>\<open>ValueError\<close>), and \<^verbatim>\<open>None\<close>, a list and a dict take no format string
  (\<^verbatim>\<open>TypeError\<close>).\<close>

fun format_f_error :: "json \<Rightarrow> py_error option" where
  "format_f_error (Scalar (SNum n)) = None"
| "format_f_error (Scalar (SBool b)) = None"
| "format_f_error (Scalar (SStr s)) = Some ValueError"
| "format_f_error (Scalar SNull) = Some TypeError"
| "format_f_error Container = Some TypeError"

text \<open>\<^verbatim>\<open>f"{symbol}"\<close> on a scalar.\<close>

fun py_str :: "platform \<Rightarrow> scalar \<Rightarrow> string" where
  "py_str p SNull = ''None''"
| "py_str p (SBool b) = (if b then ''True'' else ''False'')"
| "py_str p (SNum (PyInt i)) = int_str i"
| "py_str p (SNum (PyFloat x)) = float_repr p x"
| "py_str p (SStr s) = s"

text \<open>The module-level dictionary \<^verbatim>\<open>analysis\<close>; its two sets hold keys.\<close>

record analysis_rec =
  lp_sources :: "pykey set"
  symbols :: "pykey set"
  evidence :: "string list"

datatype verdict = SIMULATED | REAL | LIKELY_SIMULATED | INCONCLUSIVE

definition CAPTURE_COUNT :: nat where
  "CAPTURE_COUNT = 20"

text \<open>\<^verbatim>\<open>tick[key]\<close> raises \<^verbatim>\<open>KeyError\<close> on an absent key.\<close>

definition getitem :: "(tick \<Rightarrow> 'a option) \<Rightarrow> string \<Rightarrow> tick \<Rightarrow> py_error + 'a" where
  "getitem field key t = (case field t of None \<Rightarrow> Inl (KeyError key) | Some v \<Rightarrow> Inr v)"

text \<open>\<^verbatim>\<open>tick['symbol']\<close> used as a key.\<close>

definition symbol_key :: "tick \<Rightarrow> py_error + pykey" where
  "symbol_key t = (case getitem symbol ''symbol'' t of Inl e \<Rightarrow> Inl e | Inr j \<Rightarrow> hash_key j)"

text \<open>The \<^verbatim>\<open>defaultdict(list)\<close> named \<^verbatim>\<open>captured_ticks\<close> keeps its keys in insertion order;
  \<^verbatim>\<open>d[k].append(v)\<close> creates the entry of a new key at the end. Its key objects are never
  read, so that it is indexed by the classes of its keys.\<close>

definition dd_get :: "('k \<times> 'v list) list \<Rightarrow> 'k \<Rightarrow> 'v list" where
  "dd_get d k = (case map_of d k of None \<Rightarrow> [] | Some vs \<Rightarrow> vs)"

definition dd_append :: "('k \<times> 'v list) list \<Rightarrow> 'k \<Rightarrow> 'v \<Rightarrow> ('k \<times> 'v list) list" where
  "dd_append d k v = AList.update k (dd_get d k @ [v]) d"

text \<open>The dictionaries \<^verbatim>\<open>by_symbol\<close> of the analyzers are read with their keys, which are
  printed. A dict keeps the key object of the first insertion: the entry found for
  \<^verbatim>\<open>5.0\<close> after \<^verbatim>\<open>5\<close> was inserted is that of \<^verbatim>\<open>5\<close>.\<close>

fun dict_append :: "(scalar \<times> 'v list) list \<Rightarrow> scalar \<Rightarrow> 'v \<Rightarrow> (scalar \<times> 'v list) list" where
  "dict_append [] s v = [(s, [v])]"
| "dict_append ((s', vs) # d) s v =
     (if key_of s' = key_of s then (s', vs @ [v]) # d else (s', vs) # dict_append d s v)"

text \<open>The three glyphs by which \<^verbatim>\<open>generate_verdict\<close> classifies an evidence line:
  U+26A0 U+FE0F (warning sign), U+274C (cross mark), U+2705 (check mark).\<close>

definition WARN :: string where
  "WARN = [CHR 0xE2, CHR 0x9A, CHR 0xA0, CHR 0xEF, CHR 0xB8, CHR 0x8F]"

definition CROSS :: string where
  "CROSS = [CHR 0xE2, CHR 0x9D, CHR 0x8C]"

definition CHECK :: string where
  "CHECK = [CHR 0xE2, CHR 0x9C, CHR 0x85]"

text \<open>An evidence line is a string; the only place that reads its polarity is
  \<^verbatim>\<open>generate_verdict\<close>, by substring tests.\<close>

definition simulated_indicator :: "string \<Rightarrow> bool" where
  "simulated_indicator e \<longleftrightarrow> sublist WARN e \<or> sublist CROSS e"

definition real_indicator :: "string \<Rightarrow> bool" where
  "real_indicator e \<longleftrightarrow> sublist CHECK e"

definition lp_simulated_msg :: string where
  "lp_simulated_msg =
     CROSS @ '' LP field shows '' @ [CHR 0x22] @ ''SIMULATED'' @ [CHR 0x22] @
     '' - clear simulation marker''"

definition lp_real_msg :: string where
  "lp_real_msg =
     CHECK @ '' LP field shows '' @ [CHR 0x22] @ ''YOFX'' @ [CHR 0x22] @
     '' - indicates real FIX gateway data''"

definition price_low_msg :: "string \<Rightarrow> rat \<Rightarrow> string" where
  "price_low_msg symb r =
     WARN @ ''  '' @ symb @ '': Low regularity ratio ('' @ format_f 3 r @
     '') suggests simulated data''"

definition price_high_msg :: "string \<Rightarrow> rat \<Rightarrow> string" where
  "price_high_msg symb r =
     CHECK @ '' '' @ symb @ '': High price variation ('' @ format_f 3 r @
     '') suggests real market data''"

definition ts_regular_msg :: "rat \<Rightarrow> string" where
  "ts_regular_msg avg_gap =
     WARN @ ''  Very regular timestamp intervals ('' @ format_f 2 avg_gap @
     ''s) suggests simulation''"

definition ts_irregular_msg :: string where
  "ts_irregular_msg = CHECK @ '' Irregular timestamp intervals suggest real market data''"

definition spread_consistent_msg :: "string \<Rightarrow> rat \<Rightarrow> string" where
  "spread_consistent_msg symb c =
     WARN @ ''  '' @ symb @ '': Perfectly consistent spread ('' @ format_f 1 (float_mul c 100) @
     ''%) suggests simulation''"

definition spread_variable_msg :: "string \<Rightarrow> string" where
  "spread_variable_msg symb =
     CHECK @ '' '' @ symb @ '': Variable spread suggests real market conditions''"

definition append_evidence :: "analysis_rec \<Rightarrow> string \<Rightarrow> analysis_rec" where
  "append_evidence a e = a\<lparr>evidence := evidence a @ [e]\<rparr>"

section \<open>The analyzers\<close>

subsection \<open>\<^verbatim>\<open>analyze_lp\<close>\<close>

definition tick_lp :: "tick \<Rightarrow> json" where
  "tick_lp t = (case lp t of None \<Rightarrow> Scalar (SStr ''UNKNOWN'') | Some l \<Rightarrow> l)"

text \<open>The first loop; \<^verbatim>\<open>lp_counts.get(lp, 0)\<close> raises \<^verbatim>\<open>TypeError\<close> on an unhashable
  label.\<close>

fun lp_loop :: "(pykey \<times> nat) list \<Rightarrow> analysis_rec \<Rightarrow> tick list
    \<Rightarrow> py_error + (pykey \<times> nat) list \<times> analysis_rec" where
  "lp_loop lp_counts a [] = Inr (lp_counts, a)"
| "lp_loop lp_counts a (t # ts) =
     (case hash_key (tick_lp t) of
        Inl e \<Rightarrow> Inl e
      | Inr l \<Rightarrow>
          lp_loop
            (AList.update l ((case map_of lp_counts l of None \<Rightarrow> 0 | Some c \<Rightarrow> c) + 1) lp_counts)
            (a\<lparr>lp_sources := insert l (lp_sources a)\<rparr>) ts)"

fun lp_items :: "analysis_rec \<Rightarrow> (pykey \<times> nat) list \<Rightarrow> analysis_rec" where
  "lp_items a [] = a"
| "lp_items a ((l, count) # rest) =
     lp_items
       (if l = KStr ''SIMULATED'' then append_evidence a lp_simulated_msg
        else if l = KStr ''YOFX'' then append_evidence a lp_real_msg
        else a) rest"

definition analyze_lp :: "analysis_rec \<Rightarrow> tick list \<Rightarrow> py_error + analysis_rec" where
  "analyze_lp a ticks =
     (case lp_loop [] a ticks of
        Inl e \<Rightarrow> Inl e
      | Inr (lp_counts, a') \<Rightarrow> Inr (lp_items a' lp_counts))"

subsection \<open>Grouping by symbol and looping over the groups\<close>

fun group_by_symbol :: "(scalar \<times> tick list) list \<Rightarrow> tick list
    \<Rightarrow> py_error + (scalar \<times> tick list) list" where
  "group_by_symbol by_symbol [] = Inr by_symbol"
| "group_by_symbol by_symbol (t # ts) =
     (case getitem symbol ''symbol'' t of
        Inl e \<Rightarrow> Inl e
      | Inr Container \<Rightarrow> Inl TypeError
      | Inr (Scalar s) \<Rightarrow> group_by_symbol (dict_append by_symbol s t) ts)"

text \<open>A \<^verbatim>\<open>for\<close> loop whose body updates the analysis and may raise.\<close>

fun for_items :: "('s \<Rightarrow> 'x \<Rightarrow> py_error + 's) \<Rightarrow> 's \<Rightarrow> 'x list \<Rightarrow> py_error + 's" where
  "for_items body a [] = Inr a"
| "for_items body a (x # xs) =
     (case body a x of Inl e \<Rightarrow> Inl e | Inr a' \<Rightarrow> for_items body a' xs)"

subsection \<open>\<^verbatim>\<open>analyze_price_patterns\<close>\<close>

fun price_changes :: "tick list \<Rightarrow> py_error + pynum list" where
  "price_changes (t0 # t1 # ts) =
     (case getitem bid ''bid'' t1 of
        Inl e \<Rightarrow> Inl e
      | Inr b1 \<Rightarrow>
          (case getitem bid ''bid'' t0 of
             Inl e \<Rightarrow> Inl e
           | Inr b0 \<Rightarrow>
               (case py_sub b1 b0 of
                  Inl e \<Rightarrow> Inl e
                | Inr c \<Rightarrow>
                    (case price_changes (t1 # ts) of
                       Inl e \<Rightarrow> Inl e
                     | Inr cs \<Rightarrow> Inr (c # cs)))))"
| "price_changes ts = Inr []"

definition regularity_ratio :: "pynum list \<Rightarrow> rat" where
  "regularity_ratio cs =
     (if cs = [] then 0
      else int_truediv (count_distinct (map py_round6 cs)) (length cs))"

definition price_symbol :: "platform \<Rightarrow> analysis_rec \<Rightarrow> scalar \<times> tick list
    \<Rightarrow> py_error + analysis_rec" where
  "price_symbol p a g =
     (case g of (symb, symbol_ticks) \<Rightarrow>
        if length symbol_ticks < 3 then Inr a
        else (case price_changes symbol_ticks of
                Inl e \<Rightarrow> Inl e
              | Inr cs \<Rightarrow>
                  Inr (append_evidence a
                         (if regularity_ratio cs < lit_0_5
                          then price_low_msg (py_str p symb) (regularity_ratio cs)
                          else price_high_msg (py_str p symb) (regularity_ratio cs)))))"

definition analyze_price_patterns :: "platform \<Rightarrow> analysis_rec \<Rightarrow> tick list
    \<Rightarrow> py_error + analysis_rec" where
  "analyze_price_patterns p a ticks =
     (case group_by_symbol [] ticks of
        Inl e \<Rightarrow> Inl e
      | Inr by_symbol \<Rightarrow> for_items (price_symbol p) a by_symbol)"

subsection \<open>\<^verbatim>\<open>analyze_timestamps\<close>\<close>

fun timestamps_of :: "tick list \<Rightarrow> py_error + json list" where
  "timestamps_of [] = Inr []"
| "timestamps_of (t # ts) =
     (case getitem timestamp ''timestamp'' t of
        Inl e \<Rightarrow> Inl e
      | Inr x \<Rightarrow> (case timestamps_of ts of Inl e \<Rightarrow> Inl e | Inr xs \<Rightarrow> Inr (x # xs)))"

fun gaps_of :: "pynum list \<Rightarrow> pynum list" where
  "gaps_of (x0 # x1 # xs) = num_sub x1 x0 # gaps_of (x1 # xs)"
| "gaps_of xs = []"

definition gap_regularity :: "pynum list \<Rightarrow> rat" where
  "gap_regularity gaps = int_truediv (count_distinct gaps) (length gaps)"

text \<open>
  \<^verbatim>\<open>sorted\<close> and the subtractions. With fewer than two timestamps nothing is compared and
  nothing subtracted, whatever the values are. With two or more, all of them have to be
  numbers: a number is not ordered against a string, \<^verbatim>\<open>None\<close>, a list or a dict, and
  values of these four types are either not ordered among themselves or cannot be
  subtracted; in each case the exception is \<^verbatim>\<open>TypeError\<close>. Numbers are sorted by value, and
  the sort is stable.
\<close>

definition analyze_timestamps :: "analysis_rec \<Rightarrow> tick list \<Rightarrow> py_error + analysis_rec" where
  "analyze_timestamps a ticks =
     (case timestamps_of ticks of
        Inl e \<Rightarrow> Inl e
      | Inr ts \<Rightarrow>
          if length ts < 2 then Inr a
          else (case those (map as_num ts) of
                  None \<Rightarrow> Inl TypeError
                | Some ns \<Rightarrow>
                    (let gaps = gaps_of (sort_key num_val ns)
                     in if gaps = [] then Inr a
                        else Inr (append_evidence a
                                    (if gap_regularity gaps < lit_0_3 \<and> num_val (mean gaps) < 1
                                     then ts_regular_msg (to_float (mean gaps))
                                     else ts_irregular_msg)))))"

subsection \<open>\<^verbatim>\<open>analyze_spread\<close>\<close>

fun spreads_of :: "tick list \<Rightarrow> py_error + pynum list" where
  "spreads_of [] = Inr []"
| "spreads_of (t # ts) =
     (case getitem ask ''ask'' t of
        Inl e \<Rightarrow> Inl e
      | Inr a \<Rightarrow>
          (case getitem bid ''bid'' t of
             Inl e \<Rightarrow> Inl e
           | Inr b \<Rightarrow>
               (case py_sub a b of
                  Inl e \<Rightarrow> Inl e
                | Inr d \<Rightarrow>
                    (case spreads_of ts of
                       Inl e \<Rightarrow> Inl e
                     | Inr xs \<Rightarrow> Inr (py_round6 d # xs)))))"

definition spread_consistency :: "pynum list \<Rightarrow> rat" where
  "spread_consistency spreads =
     float_sub 1 (int_truediv (count_distinct spreads) (length spreads))"

definition spread_symbol :: "platform \<Rightarrow> analysis_rec \<Rightarrow> scalar \<times> tick list
    \<Rightarrow> py_error + analysis_rec" where
  "spread_symbol p a g =
     (case g of (symb, symbol_ticks) \<Rightarrow>
        (case spreads_of symbol_ticks of
           Inl e \<Rightarrow> Inl e
         | Inr spreads \<Rightarrow>
             if spreads = [] then Inl ZeroDivisionError
             else Inr (append_evidence a
                         (if lit_0_95 < spread_consistency spreads
                          then spread_consistent_msg (py_str p symb) (spread_consistency spreads)
                          else spread_variable_msg (py_str p symb)))))"

definition analyze_spread :: "platform \<Rightarrow> analysis_rec \<Rightarrow> tick list
    \<Rightarrow> py_error + analysis_rec" where
  "analyze_spread p a ticks =
     (case group_by_symbol [] ticks of
        Inl e \<Rightarrow> Inl e
      | Inr by_symbol \<Rightarrow> for_items (spread_symbol p) a by_symbol)"

subsection \<open>\<^verbatim>\<open>generate_verdict\<close>\<close>

definition simulated_indicators :: "analysis_rec \<Rightarrow> nat" where
  "simulated_indicators a = length (filter simulated_indicator (evidence a))"

definition real_indicators :: "analysis_rec \<Rightarrow> nat" where
  "real_indicators a = length (filter real_indicator (evidence a))"

text \<open>The verdict that is printed.\<close>

definition determine_verdict :: "analysis_rec \<Rightarrow> verdict" where
  "determine_verdict a =
     (if KStr ''SIMULATED'' \<in> lp_sources a then SIMULATED
      else if KStr ''YOFX'' \<in> lp_sources a \<and> simulated_indicators a < real_indicators a then REAL
      else if real_indicators a < simulated_indicators a then LIKELY_SIMULATED
      else INCONCLUSIVE)"

text \<open>
  The summary that follows the verdict prints \<^verbatim>\<open>', '.join(sorted(analysis['symbols']))\<close>.
  Strings are sorted and joined. When a symbol is not a string, \<^verbatim>\<open>sorted\<close> raises
  \<^verbatim>\<open>TypeError\<close> (strings against numbers or \<^verbatim>\<open>None\<close>) or \<^verbatim>\<open>join\<close> does (an item that is
  no string).
\<close>

fun is_str_key :: "pykey \<Rightarrow> bool" where
  "is_str_key (KStr s) = True"
| "is_str_key k = False"

definition symbols_line :: "analysis_rec \<Rightarrow> py_error option" where
  "symbols_line a = (if \<forall>k\<in>symbols a. is_str_key k then None else Some TypeError)"

text \<open>\<^verbatim>\<open>generate_verdict\<close> prints the verdict and then the summary: its result is the
  verdict and the exception of the summary, if any.\<close>

definition generate_verdict :: "analysis_rec \<Rightarrow> verdict \<times> py_error option" where
  "generate_verdict a = (determine_verdict a, symbols_line a)"

section \<open>Capture\<close>

text \<open>
  The module-level state that \<^verbatim>\<open>capture_and_analyze\<close> mutates, and the two kinds of
  line that the receive loop prints for a message (the line of one of the first five
  ticks, a parse error).
\<close>

datatype printed_line = TickLine nat tick | ParseErrorLine

record globals =
  captured_ticks :: "(pykey \<times> tick list) list"
  total_tick_count :: nat
  analysis :: analysis_rec
  printed :: "printed_line list"

definition initial_globals :: globals where
  "initial_globals =
     \<lparr>captured_ticks = [], total_tick_count = 0,
      analysis = \<lparr>lp_sources = {}, symbols = {}, evidence = []\<rparr>, printed = []\<rparr>"

text \<open>
  What one iteration of \<^verbatim>\<open>while True\<close> meets after its deadline check has passed:
  \<^item> \<open>RecvTimeout\<close>: \<^verbatim>\<open>asyncio.wait_for\<close> raises \<^verbatim>\<open>asyncio.TimeoutError\<close>;
  \<^item> \<open>RecvRaises\<close>: \<^verbatim>\<open>recv\<close> raises another \<^verbatim>\<open>Exception\<close> (the connection was closed,
    say);
  \<^item> \<open>UserInterrupt\<close>: the task is interrupted (\<^verbatim>\<open>KeyboardInterrupt\<close>);
  \<^item> \<open>Malformed\<close>: \<^verbatim>\<open>json.loads\<close> raises \<^verbatim>\<open>json.JSONDecodeError\<close>;
  \<^item> \<open>LoadsRaises e\<close>: \<^verbatim>\<open>json.loads\<close> raises an exception \<open>e\<close> that is no
    \<^verbatim>\<open>JSONDecodeError\<close>: \<^verbatim>\<open>UnicodeDecodeError\<close> for a binary frame that is not valid
    UTF-8, UTF-16 or UTF-32, \<^verbatim>\<open>RecursionError\<close> for a text nested too deeply,
    \<^verbatim>\<open>ValueError\<close> for an integer with too many digits;
  \<^item> \<open>NotAnObject\<close>: the message is valid JSON but no object, so that
    \<^verbatim>\<open>tick.get\<close> raises \<^verbatim>\<open>AttributeError\<close>;
  \<^item> \<open>Object t\<close>: the message is the JSON object \<open>t\<close>.

  The list of events is the run of iterations before the session deadline: when it is
  used up, the next deadline check fires.
\<close>

datatype recv_event =
  RecvTimeout | RecvRaises | UserInterrupt | Malformed | LoadsRaises py_error | NotAnObject
  | Object tick

datatype step = Continue globals | Break globals | Raise py_error | Interrupted

text \<open>\<^verbatim>\<open>tick.get('type') == 'tick'\<close>\<close>

definition is_tick :: "tick \<Rightarrow> bool" where
  "is_tick t \<longleftrightarrow> mtype t = Some (Scalar (SStr ''tick''))"

definition symbols_with_enough :: "globals \<Rightarrow> nat" where
  "symbols_with_enough g =
     length (filter (\<lambda>ticks. CAPTURE_COUNT \<le> length ticks) (map snd (captured_ticks g)))"

definition enough_data :: "globals \<Rightarrow> bool" where
  "enough_data g \<longleftrightarrow>
     min 3 (card (symbols (analysis g))) \<le> symbols_with_enough g \<and>
     CAPTURE_COUNT \<le> total_tick_count g"

definition store_tick :: "globals \<Rightarrow> pykey \<Rightarrow> tick \<Rightarrow> globals" where
  "store_tick g s t =
     (if length (dd_get (captured_ticks g) s) < CAPTURE_COUNT
      then g\<lparr>captured_ticks := dd_append (captured_ticks g) s t\<rparr>
      else g)"

text \<open>
  The line printed for one of the first five ticks evaluates, in this order,
  \<^verbatim>\<open>datetime.fromtimestamp(tick['timestamp'])\<close>, \<^verbatim>\<open>tick['bid']:.5f\<close> and \<^verbatim>\<open>tick['ask']:.5f\<close>
  (the symbol and the label are printed with \<^verbatim>\<open>str\<close>, which does not fail).
  \<open>tick_line_error\<close> is the exception that this raises, if any.
\<close>

definition tick_line_error :: "platform \<Rightarrow> tick \<Rightarrow> py_error option" where
  "tick_line_error p t =
     (case getitem timestamp ''timestamp'' t of
        Inl e \<Rightarrow> Some e
      | Inr ts \<Rightarrow>
          (case as_num ts of
             None \<Rightarrow> Some TypeError
           | Some n \<Rightarrow>
               (case fromtimestamp p n of
                  Some e \<Rightarrow> Some e
                | None \<Rightarrow>
                    (case getitem bid ''bid'' t of
                       Inl e \<Rightarrow> Some e
                     | Inr b \<Rightarrow>
                         (case format_f_error b of
                            Some e \<Rightarrow> Some e
                          | None \<Rightarrow>
                              (case getitem ask ''ask'' t of
                                 Inl e \<Rightarrow> Some e
                               | Inr a \<Rightarrow> format_f_error a))))))"

definition log_tick :: "platform \<Rightarrow> globals \<Rightarrow> tick \<Rightarrow> py_error + globals" where
  "log_tick p g t =
     (if total_tick_count g \<le> 5 then
        (case tick_line_error p t of
           Some e \<Rightarrow> Inl e
         | None \<Rightarrow> Inr (g\<lparr>printed := printed g @ [TickLine (total_tick_count g) t]\<rparr>))
      else Inr g)"

definition on_tick :: "platform \<Rightarrow> globals \<Rightarrow> tick \<Rightarrow> step" where
  "on_tick p g t =
     (let g1 = g\<lparr>total_tick_count := total_tick_count g + 1\<rparr>
      in case getitem symbol ''symbol'' t of
           Inl e \<Rightarrow> Raise e
         | Inr j \<Rightarrow>
             (case hash_key j of
                Inl e \<Rightarrow> Raise e
              | Inr s \<Rightarrow>
                  (let g2 = g1\<lparr>analysis := (analysis g1)\<lparr>symbols := insert s (symbols (analysis g1))\<rparr>\<rparr>;
                       g3 = store_tick g2 s t
                   in case log_tick p g3 t of
                        Inl e \<Rightarrow> Raise e
                      | Inr g4 \<Rightarrow> if enough_data g4 then Break g4 else Continue g4)))"

fun loop_body :: "platform \<Rightarrow> globals \<Rightarrow> recv_event \<Rightarrow> step" where
  "loop_body p g RecvTimeout = Continue g"
| "loop_body p g RecvRaises = Raise OtherError"
| "loop_body p g UserInterrupt = Interrupted"
| "loop_body p g Malformed = Continue (g\<lparr>printed := printed g @ [ParseErrorLine]\<rparr>)"
| "loop_body p g (LoadsRaises e) = Raise e"
| "loop_body p g NotAnObject = Raise AttributeError"
| "loop_body p g (Object t) = (if is_tick t then on_tick p g t else Continue g)"

datatype loop_result =
  Completed globals | DeadlineReached globals | Raised py_error | Cancelled

fun receive_loop :: "platform \<Rightarrow> globals \<Rightarrow> recv_event list \<Rightarrow> loop_result" where
  "receive_loop p g [] = DeadlineReached g"
| "receive_loop p g (ev # evs) =
     (case loop_body p g ev of
        Continue g' \<Rightarrow> receive_loop p g' evs
      | Break g' \<Rightarrow> Completed g'
      | Raise e \<Rightarrow> Raised e
      | Interrupted \<Rightarrow> Cancelled)"

section \<open>The session\<close>

text \<open>
  How the process ends:
  \<^item> \<open>VerdictProduced\<close>: the verdict and the summary are printed and the program returns;
  \<^item> \<open>VerdictThenTraceback\<close>: the verdict is printed, then the summary raises, and the
    process ends with the traceback of that exception;
  \<^item> \<open>ConnectionError\<close>, \<open>NoTicksCaptured\<close>: one of the two \<^verbatim>\<open>sys.exit(1)\<close>;
  \<^item> \<open>Interrupt\<close>: the \<^verbatim>\<open>KeyboardInterrupt\<close> handler of \<^verbatim>\<open>__main__\<close>;
  \<^item> \<open>Traceback\<close>: an analyzer raises, and the process ends with the traceback.

  \<open>calls\<close> lists the analyzers that were entered, in order. Writing to standard output
  and closing the connection are taken to succeed.
\<close>

datatype outcome =
    VerdictProduced analysis_rec verdict
  | VerdictThenTraceback analysis_rec verdict py_error
  | ConnectionError
  | NoTicksCaptured
  | Interrupt
  | Traceback py_error

record run =
  outcome :: outcome
  calls :: "string list"

definition all_ticks :: "globals \<Rightarrow> tick list" where
  "all_ticks g = concat (map snd (captured_ticks g))"

definition perform_analysis :: "platform \<Rightarrow> analysis_rec \<Rightarrow> tick list \<Rightarrow> run" where
  "perform_analysis p a ticks =
     (case analyze_lp a ticks of
        Inl e \<Rightarrow> \<lparr>outcome = Traceback e, calls = [''analyze_lp'']\<rparr>
      | Inr a1 \<Rightarrow>
          (case analyze_price_patterns p a1 ticks of
             Inl e \<Rightarrow> \<lparr>outcome = Traceback e, calls = [''analyze_lp'', ''analyze_price_patterns'']\<rparr>
           | Inr a2 \<Rightarrow>
               (case analyze_timestamps a2 ticks of
                  Inl e \<Rightarrow>
                    \<lparr>outcome = Traceback e,
                     calls = [''analyze_lp'', ''analyze_price_patterns'', ''analyze_timestamps'']\<rparr>
                | Inr a3 \<Rightarrow>
                    (case analyze_spread p a3 ticks of
                       Inl e \<Rightarrow>
                         \<lparr>outcome = Traceback e,
                          calls = [''analyze_lp'', ''analyze_price_patterns'',
                                   ''analyze_timestamps'', ''analyze_spread'']\<rparr>
                     | Inr a4 \<Rightarrow>
                         \<lparr>outcome =
                            (case generate_verdict a4 of
                               (v, None) \<Rightarrow> VerdictProduced a4 v
                             | (v, Some e) \<Rightarrow> VerdictThenTraceback a4 v e),
                          calls = [''analyze_lp'', ''analyze_price_patterns'',
                                   ''analyze_timestamps'', ''analyze_spread'']\<rparr>))))"

definition after_capture :: "platform \<Rightarrow> globals \<Rightarrow> run" where
  "after_capture p g =
     (if all_ticks g = [] then \<lparr>outcome = NoTicksCaptured, calls = []\<rparr>
      else perform_analysis p (analysis g) (all_ticks g))"

text \<open>What follows the receive loop: the generic handler around the connection, the
  interrupt handler of \<^verbatim>\<open>__main__\<close>, or the analysis.\<close>

fun after_loop :: "platform \<Rightarrow> loop_result \<Rightarrow> run" where
  "after_loop p (Completed g) = after_capture p g"
| "after_loop p (DeadlineReached g) = after_capture p g"
| "after_loop p (Raised e) = \<lparr>outcome = ConnectionError, calls = []\<rparr>"
| "after_loop p Cancelled = \<lparr>outcome = Interrupt, calls = []\<rparr>"

text \<open>\<open>connect_ok\<close> tells whether \<^verbatim>\<open>websockets.connect\<close> succeeded.\<close>

definition capture_and_analyze :: "platform \<Rightarrow> bool \<Rightarrow> recv_event list \<Rightarrow> run" where
  "capture_and_analyze p connect_ok evs =
     (if \<not> connect_ok then \<lparr>outcome = ConnectionError, calls = []\<rparr>
      else after_loop p (receive_loop p initial_globals evs))"

text \<open>The exit status of the process.\<close>

fun exit_code :: "outcome \<Rightarrow> nat" where
  "exit_code (VerdictProduced a v) = 0"
| "exit_code (VerdictThenTraceback a v e) = 1"
| "exit_code ConnectionError = 1"
| "exit_code NoTicksCaptured = 1"
| "exit_code Interrupt = 0"
| "exit_code (Traceback e) = 1"

section \<open>The evidence records of the specification\<close>

text \<open>
  An evidence record of the specification carries a polarity and a message. The program
  keeps one string per record, and every string that an analyzer appends starts with the
  glyph of the branch that appends it: the check mark when the branch supports real
  data, the warning sign or the cross mark when it supports simulated data.
  \<open>polarity_of\<close> is the polarity a line was emitted with.
\<close>

datatype polarity = SupportsReal | SupportsSimulated

definition polarity_of :: "string \<Rightarrow> polarity option" where
  "polarity_of e =
     (if prefix CHECK e then Some SupportsReal
      else if prefix WARN e \<or> prefix CROSS e then Some SupportsSimulated
      else None)"

definition count_real :: "string list \<Rightarrow> nat" where
  "count_real ev = length (filter (\<lambda>e. polarity_of e = Some SupportsReal) ev)"

definition count_simulated :: "string list \<Rightarrow> nat" where
  "count_simulated ev = length (filter (\<lambda>e. polarity_of e = Some SupportsSimulated) ev)"

text \<open>
  The aggregator as the specification words it: an ordered list of (predicate, verdict)
  pairs over the observed labels and the evidence records, evaluated top-down, the first
  match winning. \<open>verdict_rules\<close> counts the records of each polarity;
  \<open>indicator_rules\<close> counts, as the program does, the lines in which a glyph occurs
  anywhere.
\<close>

fun first_match :: "(('x \<Rightarrow> bool) \<times> 'v) list \<Rightarrow> 'x \<Rightarrow> 'v option" where
  "first_match [] x = None"
| "first_match ((p, v) # rules) x = (if p x then Some v else first_match rules x)"

definition verdict_rules :: "((pykey set \<times> string list \<Rightarrow> bool) \<times> verdict) list" where
  "verdict_rules =
     [(\<lambda>(labels, ev). KStr ''SIMULATED'' \<in> labels, SIMULATED),
      (\<lambda>(labels, ev). KStr ''YOFX'' \<in> labels \<and> count_simulated ev < count_real ev, REAL),
      (\<lambda>(labels, ev). count_real ev < count_simulated ev, LIKELY_SIMULATED),
      (\<lambda>(labels, ev). True, INCONCLUSIVE)]"

definition indicator_rules :: "((pykey set \<times> string list \<Rightarrow> bool) \<times> verdict) list" where
  "indicator_rules =
     [(\<lambda>(labels, ev). KStr ''SIMULATED'' \<in> labels, SIMULATED),
      (\<lambda>(labels, ev). KStr ''YOFX'' \<in> labels
          \<and> length (filter simulated_indicator ev) < length (filter real_indicator ev), REAL),
      (\<lambda>(labels, ev). length (filter real_indicator ev) < length (filter simulated_indicator ev),
          LIKELY_SIMULATED),
      (\<lambda>(labels, ev). True, INCONCLUSIVE)]"

text \<open>A line that the program counts on the side of its polarity, and on that side
  only.\<close>

definition glyphs_agree :: "string \<Rightarrow> bool" where
  "glyphs_agree e \<longleftrightarrow>
     real_indicator e = (polarity_of e = Some SupportsReal) \<and>
     simulated_indicator e = (polarity_of e = Some SupportsSimulated)"

text \<open>A text in which none of the three glyphs occurs.\<close>

definition marker_free :: "string \<Rightarrow> bool" where
  "marker_free s \<longleftrightarrow> \<not> sublist WARN s \<and> \<not> sublist CROSS s \<and> \<not> sublist CHECK s"

section \<open>The analyzers as the specification words them\<close>


















section \<open>Notions used by the properties of the capture\<close>

text \<open>The number of ticks buffered for a symbol.\<close>

definition buffered :: "globals \<Rightarrow> pykey \<Rightarrow> nat" where
  "buffered g s = length (dd_get (captured_ticks g) s)"

text \<open>
  An arrival sequence without the ticks that meet a full buffer: \<open>cnt s\<close> counts the
  ticks of symbol \<open>s\<close> kept so far, and a tick of a symbol that has reached
  \<open>CAPTURE_COUNT\<close> is left out.
\<close>

fun strip_dropped :: "(pykey \<Rightarrow> nat) \<Rightarrow> recv_event list \<Rightarrow> recv_event list" where
  "strip_dropped cnt [] = []"
| "strip_dropped cnt (Object t # evs) =
     (if is_tick t then
        (case symbol_key t of
           Inl e \<Rightarrow> Object t # strip_dropped cnt evs
         | Inr s \<Rightarrow>
             if CAPTURE_COUNT \<le> cnt s then strip_dropped cnt evs
             else Object t # strip_dropped (cnt(s := cnt s + 1)) evs)
      else Object t # strip_dropped cnt evs)"
| "strip_dropped cnt (ev # evs) = ev # strip_dropped cnt evs"

text \<open>The state after the counter, the symbol set and the buffer have been updated for a
  tick of symbol \<open>s\<close>.\<close>

definition tick_state :: "globals \<Rightarrow> pykey \<Rightarrow> tick \<Rightarrow> globals" where
  "tick_state g s t = store_tick (g\<lparr>total_tick_count := total_tick_count g + 1,
      analysis := (analysis g)\<lparr>symbols := insert s (symbols (analysis g))\<rparr>\<rparr>) s t"

text \<open>What the states of the receive loop have in common.\<close>

definition capture_inv :: "globals \<Rightarrow> bool" where
  "capture_inv g \<longleftrightarrow>
     list_all (\<lambda>p. snd p \<noteq> [] \<and> length (snd p) \<le> CAPTURE_COUNT) (captured_ticks g) \<and>
     set (map fst (captured_ticks g)) \<subseteq> symbols (analysis g) \<and>
     length (all_ticks g) \<le> total_tick_count g \<and>
     ((total_tick_count g = 0) = (captured_ticks g = []))"

text \<open>Two states that the loop cannot tell apart: the same buffers and analysis, and
  counters that are equal or both past the capture target.\<close>

definition sim :: "globals \<Rightarrow> globals \<Rightarrow> bool" where
  "sim g g' \<longleftrightarrow>
     captured_ticks g = captured_ticks g' \<and> analysis g = analysis g' \<and>
     (total_tick_count g = total_tick_count g' \<or>
      CAPTURE_COUNT \<le> total_tick_count g \<and> CAPTURE_COUNT \<le> total_tick_count g')"

fun step_sim :: "step \<Rightarrow> step \<Rightarrow> bool" where
  "step_sim (Continue g) (Continue g') = sim g g'"
| "step_sim (Break g) (Break g') = sim g g'"
| "step_sim (Raise e) (Raise e') = (e = e')"
| "step_sim Interrupted Interrupted = True"
| "step_sim x y = False"

fun loop_sim :: "loop_result \<Rightarrow> loop_result \<Rightarrow> bool" where
  "loop_sim (Completed g) (Completed g') = sim g g'"
| "loop_sim (DeadlineReached g) (DeadlineReached g') = sim g g'"
| "loop_sim (Raised e) (Raised e') = (e = e')"
| "loop_sim Cancelled Cancelled = True"
| "loop_sim x y = False"

section \<open>Reading an outcome\<close>

text \<open>The verdict that a run printed, if it printed one.\<close>

fun verdict_of :: "outcome \<Rightarrow> verdict option" where
  "verdict_of (VerdictProduced a v) = Some v"
| "verdict_of (VerdictThenTraceback a v e) = Some v"
| "verdict_of x = None"

fun carries_simulated :: "recv_event \<Rightarrow> bool" where
  "carries_simulated (Object t) = (lp t = Some (Scalar (SStr ''SIMULATED'')))"
| "carries_simulated ev = False"

section \<open>Example data\<close>

text \<open>
  The examples are run on a platform whose \<^verbatim>\<open>datetime.fromtimestamp\<close> accepts the seconds
  from the epoch to the end of the year 9999 and raises \<^verbatim>\<open>ValueError\<close> otherwise. No
  example has a float as a symbol, so that \<open>float_repr\<close> is not called in them; it is
  set to the rendering with one decimal.
\<close>

definition example_platform :: platform where
  "example_platform =
     \<lparr>fromtimestamp = (\<lambda>n. if 0 \<le> num_val n \<and> num_val n < 253402300800 then None else Some ValueError),
      float_repr = format_f 1\<rparr>"

definition example_tick :: "string \<Rightarrow> pynum \<Rightarrow> pynum \<Rightarrow> pynum \<Rightarrow> string option \<Rightarrow> tick" where
  "example_tick s b a ts l =
     \<lparr>mtype = Some (Scalar (SStr ''tick'')), symbol = Some (Scalar (SStr s)),
      bid = Some (Scalar (SNum b)), ask = Some (Scalar (SNum a)),
      timestamp = Some (Scalar (SNum ts)), lp = map_option (\<lambda>x. Scalar (SStr x)) l\<rparr>"

definition tick_x :: tick where
  "tick_x = example_tick ''X'' (PyInt 1) (PyInt 2) (PyInt 0) (Some ''YOFX'')"

definition tick_y :: tick where
  "tick_y = example_tick ''Y'' (PyInt 1) (PyInt 2) (PyInt 0) (Some ''YOFX'')"

definition tick_x_sim :: tick where
  "tick_x_sim = example_tick ''X'' (PyInt 1) (PyInt 2) (PyInt 0) (Some ''SIMULATED'')"

definition full_x_events :: "recv_event list" where
  "full_x_events = Object tick_y # replicate 20 (Object tick_x)"

definition full_x_state :: globals where
  "full_x_state =
     \<lparr>captured_ticks = [(KStr ''Y'', [tick_y]), (KStr ''X'', replicate 20 tick_x)],
      total_tick_count = 21,
      analysis = \<lparr>lp_sources = {}, symbols = {KStr ''X'', KStr ''Y''}, evidence = []\<rparr>,
      printed = [TickLine 1 tick_y, TickLine 2 tick_x, TickLine 3 tick_x, TickLine 4 tick_x,
                 TickLine 5 tick_x]\<rparr>"

definition one_tick_state :: globals where
  "one_tick_state =
     \<lparr>captured_ticks = [(KStr ''X'', [tick_x])], total_tick_count = 1,
      analysis = \<lparr>lp_sources = {}, symbols = {KStr ''X''}, evidence = []\<rparr>,
      printed = [TickLine 1 tick_x]\<rparr>"

definition no_tick_state :: globals where
  "no_tick_state = initial_globals\<lparr>printed := [ParseErrorLine]\<rparr>"

text \<open>A tick without the key \<^verbatim>\<open>symbol\<close>; a tick whose time is in milliseconds; a tick
  whose symbol is the number 5.\<close>

definition tick_without_symbol :: tick where
  "tick_without_symbol = tick_x\<lparr>symbol := None\<rparr>"

definition tick_millis :: tick where
  "tick_millis = tick_x\<lparr>timestamp := Some (Scalar (SNum (PyInt 1700000000000)))\<rparr>"

definition tick_five :: tick where
  "tick_five = tick_x\<lparr>symbol := Some (Scalar (SNum (PyInt 5)))\<rparr>"

text \<open>The analysis before any analyzer has run.\<close>

definition empty_analysis :: analysis_rec where
  "empty_analysis = \<lparr>lp_sources = {}, symbols = {}, evidence = []\<rparr>"






definition simulated_pair :: "tick list" where
  "simulated_pair = [tick_x, tick_x_sim]"

text \<open>Five ticks of the symbol that consists of the cross mark, from the real gateway,
  with rising bids, a constant spread and a quarter of a second between them; and the
  analysis in which a session that receives them ends.\<close>

definition cross_tick :: "int \<Rightarrow> rat \<Rightarrow> tick" where
  "cross_tick b ts = example_tick CROSS (PyInt b) (PyInt (b + 1)) (PyFloat ts) (Some ''YOFX'')"

definition cross_ticks :: "tick list" where
  "cross_ticks =
     [cross_tick 1 0, cross_tick 2 (1 / 4), cross_tick 4 (1 / 2), cross_tick 7 (3 / 4), cross_tick 11 1]"

definition cross_evidence :: "string list" where
  "cross_evidence =
     [lp_real_msg, price_high_msg CROSS 1, ts_regular_msg (1 / 4), spread_variable_msg CROSS]"

definition cross_analysis :: analysis_rec where
  "cross_analysis = \<lparr>lp_sources = {KStr ''YOFX''}, symbols = {KStr CROSS}, evidence = cross_evidence\<rparr>"

section \<open>Lemmas about the receive loop\<close>

lemma sim_refl: "sim g g" by (simp add: sim_def)
lemma sim_sym: "sim g g' \<Longrightarrow> sim g' g" by (auto simp: sim_def)
lemma sim_trans: "sim g g' \<Longrightarrow> sim g' g'' \<Longrightarrow> sim g g''" by (auto simp: sim_def)

lemma sim_printed: "sim (g\<lparr>printed := p\<rparr>) g" by (simp add: sim_def)

lemma step_sim_refl: "step_sim x x" by (cases x) (simp_all add: sim_refl)
lemma loop_sim_refl: "loop_sim x x" by (cases x) (simp_all add: sim_refl)
lemma loop_sim_trans: "loop_sim x y \<Longrightarrow> loop_sim y z \<Longrightarrow> loop_sim x z"
  by (cases x; cases y; cases z) (auto intro: sim_trans)

lemma enough_data_sim: "sim g g' \<Longrightarrow> enough_data g = enough_data g'"
  by (auto simp: sim_def enough_data_def symbols_with_enough_def)

lemma on_tick_key:
  "symbol_key t = Inr s \<Longrightarrow> on_tick p g t =
     (case log_tick p (tick_state g s t) t of Inl e \<Rightarrow> Raise e
      | Inr g4 \<Rightarrow> if enough_data g4 then Break g4 else Continue g4)"
  by (auto simp: on_tick_def symbol_key_def Let_def tick_state_def split: sum.splits)

lemma on_tick_no_key: "symbol_key t = Inl e \<Longrightarrow> on_tick p g t = Raise e"
  by (auto simp: on_tick_def symbol_key_def Let_def split: sum.splits)

lemma log_tick_Inr:
  "log_tick p g t = Inr g' \<Longrightarrow> g' = g \<or> g' = g\<lparr>printed := printed g @ [TickLine (total_tick_count g) t]\<rparr>"
  by (auto simp: log_tick_def split: if_splits option.splits)

lemma tick_state_sim: "sim g g' \<Longrightarrow> sim (tick_state g s t) (tick_state g' s t)"
  by (auto simp: sim_def tick_state_def store_tick_def)

lemma log_tick_sim:
  assumes "sim g g'"
  shows "(\<exists>e. log_tick p g t = Inl e \<and> log_tick p g' t = Inl e) \<or>
     (\<exists>g4 g4'. log_tick p g t = Inr g4 \<and> log_tick p g' t = Inr g4' \<and> sim g4 g4')"
proof (cases "total_tick_count g = total_tick_count g'")
  case True
  with assms show ?thesis
    by (cases "tick_line_error p t") (auto simp: log_tick_def sim_def)
next
  case False
  with assms have "\<not> total_tick_count g \<le> 5" "\<not> total_tick_count g' \<le> 5"
    by (auto simp: sim_def CAPTURE_COUNT_def)
  with assms show ?thesis by (simp add: log_tick_def)
qed

lemma on_tick_sim: assumes "sim g g'" shows "step_sim (on_tick p g t) (on_tick p g' t)"
proof (cases "symbol_key t")
  case (Inl e)
  then show ?thesis by (simp add: on_tick_no_key)
next
  case (Inr s)
  from log_tick_sim [OF tick_state_sim [OF assms], of p s t t]
  show ?thesis
    by (auto simp: on_tick_key [OF Inr] enough_data_sim)
qed

lemma loop_body_sim: "sim g g' \<Longrightarrow> step_sim (loop_body p g ev) (loop_body p g' ev)"
  by (cases ev) (auto simp: on_tick_sim sim_def)

lemma receive_loop_sim: "sim g g' \<Longrightarrow> loop_sim (receive_loop p g evs) (receive_loop p g' evs)"
proof (induction evs arbitrary: g g')
  case Nil
  then show ?case by simp
next
  case (Cons ev evs)
  from loop_body_sim [OF Cons.prems, of p ev] show ?case
    by (cases "loop_body p g ev"; cases "loop_body p g' ev") (auto intro: Cons.IH)
qed

lemma after_capture_sim: "sim g g' \<Longrightarrow> after_capture p g = after_capture p g'"
  by (simp add: sim_def after_capture_def all_ticks_def)

lemma after_loop_sim: "loop_sim x y \<Longrightarrow> after_loop p x = after_loop p y"
  by (cases x; cases y) (auto intro: after_capture_sim)

lemma receive_loop_append:
  "receive_loop p g pre = DeadlineReached g' \<Longrightarrow> receive_loop p g (pre @ rest) = receive_loop p g' rest"
proof (induction pre arbitrary: g)
  case Nil
  then show ?case by simp
next
  case (Cons ev pre)
  then show ?case by (cases "loop_body p g ev") auto
qed

lemma receive_loop_stops:
  "receive_loop p g pre = r \<Longrightarrow> (\<forall>g'. r \<noteq> DeadlineReached g') \<Longrightarrow> receive_loop p g (pre @ rest) = r"
proof (induction pre arbitrary: g)
  case Nil
  then show ?case by auto
next
  case (Cons ev pre)
  then show ?case by (cases "loop_body p g ev") auto
qed

lemma dd_get_append: "dd_get (dd_append d k v) k' = (if k' = k then dd_get d k @ [v] else dd_get d k')"
  by (simp add: dd_get_def dd_append_def update_conv')

lemma length_concat_update:
  "length (concat (map snd (AList.update k (dd_get d k @ [v]) d))) = Suc (length (concat (map snd d)))"
  by (induction d) (auto simp: dd_get_def)

lemma keys_update: "fst ` set (AList.update k v d) = insert k (fst ` set d)"
  by (induction d) auto

lemma list_all_update:
  "list_all P d \<Longrightarrow> P (k, v) \<Longrightarrow> list_all P (AList.update k v d)"
  by (induction d) auto

lemma update_not_Nil: "AList.update k v d \<noteq> []"
  by (cases d) auto

lemma dd_get_in_set: "dd_get d k \<noteq> [] \<Longrightarrow> (k, dd_get d k) \<in> set d"
  by (auto simp: dd_get_def split: option.splits dest: map_of_SomeD)

lemma dd_get_bound: "length (dd_get d k) \<le> n" if "list_all (\<lambda>p. snd p \<noteq> [] \<and> length (snd p) \<le> n) d"
proof (cases "map_of d k")
  case None
  then show ?thesis by (simp add: dd_get_def)
next
  case (Some b)
  then have "(k, b) \<in> set d" by (rule map_of_SomeD)
  with that have "length (snd (k, b)) \<le> n" unfolding list_all_iff by blast
  with Some show ?thesis by (simp add: dd_get_def)
qed

lemma capture_inv_printed: "capture_inv (g\<lparr>printed := p\<rparr>) = capture_inv g"
  by (simp add: capture_inv_def all_ticks_def)

lemma capture_inv_tick_state: assumes "capture_inv g" shows "capture_inv (tick_state g s t)"
proof (cases "length (dd_get (captured_ticks g) s) < CAPTURE_COUNT")
  case True
  then have c: "captured_ticks (tick_state g s t) = dd_append (captured_ticks g) s t"
    and a: "symbols (analysis (tick_state g s t)) = insert s (symbols (analysis g))"
    and n: "total_tick_count (tick_state g s t) = total_tick_count g + 1"
    by (simp_all add: tick_state_def store_tick_def)
  show ?thesis
    unfolding capture_inv_def c a n all_ticks_def
    using assms True
    by (auto simp: capture_inv_def all_ticks_def keys_update dd_append_def length_concat_update
        update_not_Nil intro!: list_all_update)
next
  case False
  then have c: "captured_ticks (tick_state g s t) = captured_ticks g"
    and a: "symbols (analysis (tick_state g s t)) = insert s (symbols (analysis g))"
    and n: "total_tick_count (tick_state g s t) = total_tick_count g + 1"
    by (simp_all add: tick_state_def store_tick_def)
  from False have "captured_ticks g \<noteq> []"
    by (auto simp: dd_get_def CAPTURE_COUNT_def)
  then show ?thesis
    unfolding capture_inv_def c a n all_ticks_def
    using assms by (auto simp: capture_inv_def all_ticks_def)
qed

text \<open>What a tick that the loop takes leaves behind.\<close>

lemma on_tick_result:
  assumes "on_tick p g t = Continue g1 \<or> on_tick p g t = Break g1"
  shows "\<exists>s. symbol_key t = Inr s \<and>
     (g1 = tick_state g s t \<or> (\<exists>q. g1 = (tick_state g s t)\<lparr>printed := q\<rparr>))"
proof (cases "symbol_key t")
  case (Inl e)
  with assms show ?thesis by (simp add: on_tick_no_key)
next
  case (Inr s)
  with assms obtain g4 where g4: "log_tick p (tick_state g s t) t = Inr g4" and "g1 = g4"
    by (auto simp: on_tick_key split: sum.splits if_splits)
  with log_tick_Inr [OF g4] Inr show ?thesis by auto
qed

lemma on_tick_enough:
  "on_tick p g t = Continue g1 \<Longrightarrow> \<not> enough_data g1"
  "on_tick p g t = Break g1 \<Longrightarrow> enough_data g1"
  by (cases "symbol_key t"; auto simp: on_tick_key on_tick_no_key split: sum.splits if_splits)+

lemma capture_inv_step:
  assumes "capture_inv g" and "loop_body p g ev = Continue g' \<or> loop_body p g ev = Break g'"
  shows "capture_inv g'"
proof (cases ev)
  case (Object t)
  show ?thesis
  proof (cases "is_tick t")
    case True
    with assms(2) Object have "on_tick p g t = Continue g' \<or> on_tick p g t = Break g'" by simp
    from on_tick_result [OF this] capture_inv_tick_state [OF assms(1)] show ?thesis
      by (auto simp: capture_inv_printed)
  next
    case False
    with assms Object show ?thesis by auto
  qed
qed (use assms in \<open>auto simp: capture_inv_printed\<close>)

lemma capture_inv_initial: "capture_inv initial_globals"
  by (simp add: capture_inv_def initial_globals_def all_ticks_def)

lemma not_enough_initial: "\<not> enough_data initial_globals"
  by (simp add: enough_data_def initial_globals_def CAPTURE_COUNT_def)

lemma receive_loop_inv:
  "capture_inv g \<Longrightarrow> receive_loop p g evs = Completed g' \<or> receive_loop p g evs = DeadlineReached g' \<Longrightarrow> capture_inv g'"
proof (induction evs arbitrary: g)
  case Nil
  then show ?case by simp
next
  case (Cons ev evs)
  show ?case
  proof (cases "loop_body p g ev")
    case (Continue g1)
    with Cons.prems capture_inv_step [of g p ev g1] have "capture_inv g1" by simp
    with Cons.IH [of g1] Cons.prems(2) Continue show ?thesis by simp
  next
    case (Break g1)
    with Cons.prems capture_inv_step [of g p ev g1] show ?thesis by auto
  qed (use Cons.prems in auto)
qed

lemma continue_not_enough:
  assumes "loop_body p g ev = Continue g1" and "\<not> enough_data g"
  shows "\<not> enough_data g1"
proof (cases ev)
  case (Object t)
  with assms show ?thesis
    by (cases "is_tick t") (auto dest: on_tick_enough)
qed (use assms in \<open>auto simp: enough_data_def symbols_with_enough_def\<close>)

lemma break_enough:
  assumes "loop_body p g ev = Break g1"
  shows "enough_data g1"
proof (cases ev)
  case (Object t)
  with assms show ?thesis
    by (cases "is_tick t") (auto dest: on_tick_enough)
qed (use assms in auto)

lemma receive_loop_not_enough:
  "\<not> enough_data g \<Longrightarrow> receive_loop p g evs = DeadlineReached g' \<Longrightarrow> \<not> enough_data g'"
proof (induction evs arbitrary: g)
  case Nil
  then show ?case by simp
next
  case (Cons ev evs)
  show ?case
  proof (cases "loop_body p g ev")
    case (Continue g1)
    from continue_not_enough [OF Continue Cons.prems(1)] Cons.IH [of g1] Cons.prems(2) Continue
    show ?thesis by simp
  qed (use Cons.prems in auto)
qed

lemma receive_loop_Completed_enough:
  "receive_loop p g evs = Completed g' \<Longrightarrow> enough_data g'"
proof (induction evs arbitrary: g)
  case Nil
  then show ?case by simp
next
  case (Cons ev evs)
  show ?case
  proof (cases "loop_body p g ev")
    case (Break g1)
    with break_enough [OF Break] Cons.prems show ?thesis by simp
  qed (use Cons in auto)
qed

lemma length_entry_le_concat: "(k, b) \<in> set d \<Longrightarrow> length b \<le> length (concat (map snd d))"
  by (induction d) auto

lemma full_buffer_facts:
  assumes "capture_inv g" and "CAPTURE_COUNT \<le> buffered g s"
  shows "s \<in> symbols (analysis g)" and "CAPTURE_COUNT \<le> total_tick_count g"
proof -
  from assms(2) have ne: "dd_get (captured_ticks g) s \<noteq> []"
    by (auto simp: buffered_def CAPTURE_COUNT_def)
  then have m: "(s, dd_get (captured_ticks g) s) \<in> set (captured_ticks g)"
    by (rule dd_get_in_set)
  then have "s \<in> fst ` set (captured_ticks g)" by force
  with assms(1) show "s \<in> symbols (analysis g)"
    by (auto simp: capture_inv_def)
  from m have "length (dd_get (captured_ticks g) s) \<le> length (all_ticks g)"
    unfolding all_ticks_def by (rule length_entry_le_concat)
  with assms show "CAPTURE_COUNT \<le> total_tick_count g"
    by (simp add: capture_inv_def buffered_def)
qed

lemma dropped_tick_step:
  assumes inv: "capture_inv g" and ne: "\<not> enough_data g"
    and full: "CAPTURE_COUNT \<le> buffered g s"
    and t: "is_tick t" "symbol_key t = Inr s"
  shows "loop_body p g (Object t) = Continue (g\<lparr>total_tick_count := total_tick_count g + 1\<rparr>)"
proof -
  from full_buffer_facts [OF inv full] have s: "s \<in> symbols (analysis g)"
    and n: "CAPTURE_COUNT \<le> total_tick_count g" by simp_all
  from s have "insert s (symbols (analysis g)) = symbols (analysis g)" by auto
  then have st: "tick_state g s t = g\<lparr>total_tick_count := total_tick_count g + 1\<rparr>"
    using full by (simp add: tick_state_def store_tick_def buffered_def)
  from n have l: "log_tick p (g\<lparr>total_tick_count := total_tick_count g + 1\<rparr>) t
      = Inr (g\<lparr>total_tick_count := total_tick_count g + 1\<rparr>)"
    by (simp add: log_tick_def CAPTURE_COUNT_def)
  have "sim (g\<lparr>total_tick_count := total_tick_count g + 1\<rparr>) g"
    using n by (simp add: sim_def)
  then have "\<not> enough_data (g\<lparr>total_tick_count := total_tick_count g + 1\<rparr>)"
    using ne by (simp add: enough_data_sim)
  with t st l show ?thesis
    by (simp add: on_tick_key)
qed

lemma buffered_printed: "buffered (g\<lparr>printed := p\<rparr>) = buffered g"
  by (simp add: buffered_def fun_eq_iff)

lemma buffered_tick_state:
  "buffered (tick_state g s t) =
     (if buffered g s < CAPTURE_COUNT then (buffered g)(s := buffered g s + 1) else buffered g)"
  by (auto simp: buffered_def tick_state_def store_tick_def dd_get_append fun_eq_iff)

lemma buffered_on_tick:
  assumes "symbol_key t = Inr s" and "on_tick p g t = Continue g1 \<or> on_tick p g t = Break g1"
  shows "buffered g1 =
     (if buffered g s < CAPTURE_COUNT then (buffered g)(s := buffered g s + 1) else buffered g)"
  using on_tick_result [OF assms(2)] assms(1) by (auto simp: buffered_printed buffered_tick_state)

lemma strip_dropped_sim:
  "capture_inv g \<Longrightarrow> \<not> enough_data g \<Longrightarrow> cnt = buffered g
   \<Longrightarrow> loop_sim (receive_loop p g evs) (receive_loop p g (strip_dropped cnt evs))"
proof (induction evs arbitrary: g cnt)
  case Nil
  then show ?case by (simp add: sim_refl)
next
  case (Cons ev evs)
  note inv = \<open>capture_inv g\<close> and ne = \<open>\<not> enough_data g\<close> and cnt = \<open>cnt = buffered g\<close>
  have same: "loop_sim (receive_loop p g (ev # evs)) (receive_loop p g (ev # strip_dropped cnt' evs))"
    if "\<And>g1. loop_body p g ev = Continue g1 \<Longrightarrow> cnt' = buffered g1" for cnt'
  proof (cases "loop_body p g ev")
    case (Continue g1)
    from inv Continue have "capture_inv g1" by (auto intro: capture_inv_step)
    moreover from Continue ne have "\<not> enough_data g1" by (rule continue_not_enough)
    ultimately show ?thesis
      using Continue that [OF Continue] by (simp add: Cons.IH)
  qed (simp_all add: sim_refl)
  show ?case
  proof (cases ev)
    case (Object t)
    show ?thesis
    proof (cases "is_tick t")
      case True
      note tick = this
      show ?thesis
      proof (cases "symbol_key t")
        case (Inl e)
        have "loop_sim (receive_loop p g (ev # evs)) (receive_loop p g (ev # strip_dropped cnt evs))"
          by (rule same) (use Object tick Inl in \<open>simp add: on_tick_no_key\<close>)
        with Object tick Inl show ?thesis by simp
      next
        case (Inr s)
        show ?thesis
        proof (cases "CAPTURE_COUNT \<le> cnt s")
          case True
          with cnt have full: "CAPTURE_COUNT \<le> buffered g s" by simp
          let ?g1 = "g\<lparr>total_tick_count := total_tick_count g + 1\<rparr>"
          from dropped_tick_step [OF inv ne full tick Inr]
          have step: "loop_body p g (Object t) = Continue ?g1" .
          from full_buffer_facts(2) [OF inv full] have "sim ?g1 g"
            by (simp add: sim_def)
          then have "loop_sim (receive_loop p ?g1 evs) (receive_loop p g evs)"
            by (rule receive_loop_sim)
          moreover have "loop_sim (receive_loop p g evs) (receive_loop p g (strip_dropped cnt evs))"
            by (rule Cons.IH [OF inv ne cnt])
          ultimately have "loop_sim (receive_loop p ?g1 evs) (receive_loop p g (strip_dropped cnt evs))"
            by (rule loop_sim_trans)
          with Object tick Inr True step show ?thesis by simp
        next
          case False
          have "loop_sim (receive_loop p g (ev # evs))
                  (receive_loop p g (ev # strip_dropped (cnt(s := cnt s + 1)) evs))"
          proof (rule same)
            fix g1 assume "loop_body p g ev = Continue g1"
            with Object tick have "on_tick p g t = Continue g1 \<or> on_tick p g t = Break g1" by simp
            from buffered_on_tick [OF Inr this] False cnt
            show "cnt(s := cnt s + 1) = buffered g1" by simp
          qed
          with Object tick Inr False show ?thesis by simp
        qed
      qed
    next
      case False
      have "loop_sim (receive_loop p g (ev # evs)) (receive_loop p g (ev # strip_dropped cnt evs))"
        by (rule same) (use Object False cnt in auto)
      with Object False show ?thesis by simp
    qed
  next
    case Malformed
    have "loop_sim (receive_loop p g (ev # evs)) (receive_loop p g (ev # strip_dropped cnt evs))"
      by (rule same) (use Malformed cnt in \<open>auto simp: buffered_printed\<close>)
    with Malformed show ?thesis by simp
  next
    case RecvTimeout
    have "loop_sim (receive_loop p g (ev # evs)) (receive_loop p g (ev # strip_dropped cnt evs))"
      by (rule same) (use RecvTimeout cnt in auto)
    with RecvTimeout show ?thesis by simp
  qed (simp_all add: sim_refl)
qed

lemma buffered_initial: "buffered initial_globals = (\<lambda>s. 0)"
  by (simp add: buffered_def initial_globals_def dd_get_def fun_eq_iff)

lemma session_strip_dropped:
  "capture_and_analyze p c evs = capture_and_analyze p c (strip_dropped (\<lambda>s. 0) evs)"
proof -
  have "loop_sim (receive_loop p initial_globals evs)
          (receive_loop p initial_globals (strip_dropped (\<lambda>s. 0) evs))"
    by (rule strip_dropped_sim [OF capture_inv_initial not_enough_initial]) (simp add: buffered_initial)
  then show ?thesis
    by (simp add: capture_and_analyze_def after_loop_sim)
qed

lemma all_ticks_empty_iff: "capture_inv g \<Longrightarrow> (all_ticks g = []) = (total_tick_count g = 0)"
  by (cases "captured_ticks g") (auto simp: capture_inv_def all_ticks_def)

lemma calls_perform_analysis: "calls (perform_analysis p a ticks) \<noteq> []"
  by (simp add: perform_analysis_def split: sum.splits)

lemma hd_calls_perform_analysis: "hd (calls (perform_analysis p a ticks)) = ''analyze_lp''"
  by (simp add: perform_analysis_def split: sum.splits)

lemma calls_after_capture: "(calls (after_capture p g) = []) = (all_ticks g = [])"
  by (simp add: after_capture_def calls_perform_analysis)

subsection \<open>What the analyzers leave alone\<close>

lemma for_items_preserves:
  assumes "for_items body a xs = Inr a'"
    and "\<And>a x a'. body a x = Inr a' \<Longrightarrow> f a' = f a"
  shows "f a' = f a"
  using assms(1)
proof (induction xs arbitrary: a)
  case Nil
  then show ?case by simp
next
  case (Cons x xs)
  then obtain a1 where a1: "body a x = Inr a1" and r: "for_items body a1 xs = Inr a'"
    by (auto split: sum.splits)
  from Cons.IH [OF r] assms(2) [OF a1] show ?case by simp
qed

lemma price_symbol_frame:
  "price_symbol p a g = Inr a' \<Longrightarrow> lp_sources a' = lp_sources a \<and> symbols a' = symbols a"
  by (auto simp: price_symbol_def append_evidence_def split: prod.splits if_splits sum.splits)

lemma spread_symbol_frame:
  "spread_symbol p a g = Inr a' \<Longrightarrow> lp_sources a' = lp_sources a \<and> symbols a' = symbols a"
  by (auto simp: spread_symbol_def append_evidence_def split: prod.splits if_splits sum.splits)

lemma analyze_price_patterns_frame:
  assumes "analyze_price_patterns p a ticks = Inr a'"
  shows "lp_sources a' = lp_sources a" and "symbols a' = symbols a"
proof -
  from assms obtain d where d: "for_items (price_symbol p) a d = Inr a'"
    by (auto simp: analyze_price_patterns_def split: sum.splits)
  show "lp_sources a' = lp_sources a"
    by (rule for_items_preserves [OF d]) (simp add: price_symbol_frame)
  show "symbols a' = symbols a"
    by (rule for_items_preserves [OF d]) (simp add: price_symbol_frame)
qed

lemma analyze_spread_frame:
  assumes "analyze_spread p a ticks = Inr a'"
  shows "lp_sources a' = lp_sources a" and "symbols a' = symbols a"
proof -
  from assms obtain d where d: "for_items (spread_symbol p) a d = Inr a'"
    by (auto simp: analyze_spread_def split: sum.splits)
  show "lp_sources a' = lp_sources a"
    by (rule for_items_preserves [OF d]) (simp add: spread_symbol_frame)
  show "symbols a' = symbols a"
    by (rule for_items_preserves [OF d]) (simp add: spread_symbol_frame)
qed

lemma analyze_timestamps_frame:
  "analyze_timestamps a ticks = Inr a' \<Longrightarrow> lp_sources a' = lp_sources a \<and> symbols a' = symbols a"
  by (auto simp: analyze_timestamps_def append_evidence_def Let_def
      split: sum.splits if_splits option.splits)

lemma lp_loop_frame:
  "lp_loop c a ticks = Inr (c', a') \<Longrightarrow>
     lp_sources a' = lp_sources a \<union> {k. \<exists>t\<in>set ticks. hash_key (tick_lp t) = Inr k}
     \<and> symbols a' = symbols a \<and> evidence a' = evidence a"
proof (induction c a ticks rule: lp_loop.induct)
  case (1 lp_counts a)
  then show ?case by simp
next
  case (2 lp_counts a t ts)
  from "2.prems" obtain l where l: "hash_key (tick_lp t) = Inr l"
    by (cases "hash_key (tick_lp t)") simp_all
  from "2.IH" [OF l] "2.prems" l show ?case
    by auto
qed

lemma lp_items_frame: "lp_sources (lp_items a items) = lp_sources a \<and> symbols (lp_items a items) = symbols a"
  by (induction a items rule: lp_items.induct) (auto simp: append_evidence_def)

lemma analyze_lp_frame:
  assumes "analyze_lp a ticks = Inr a'"
  shows "lp_sources a' = lp_sources a \<union> {k. \<exists>t\<in>set ticks. hash_key (tick_lp t) = Inr k}"
    and "symbols a' = symbols a"
proof -
  from assms obtain c a1 where l: "lp_loop [] a ticks = Inr (c, a1)" and a': "a' = lp_items a1 c"
    by (auto simp: analyze_lp_def split: sum.splits prod.splits)
  from lp_loop_frame [OF l] a' lp_items_frame [of a1 c]
  show "lp_sources a' = lp_sources a \<union> {k. \<exists>t\<in>set ticks. hash_key (tick_lp t) = Inr k}"
    and "symbols a' = symbols a"
    by simp_all
qed

text \<open>A run of the analysis that printed a verdict.\<close>

lemma perform_analysis_verdict:
  assumes "verdict_of (outcome (perform_analysis p a ticks)) = Some v"
  shows "\<exists>a'. lp_sources a' = lp_sources a \<union> {k. \<exists>t\<in>set ticks. hash_key (tick_lp t) = Inr k}
     \<and> symbols a' = symbols a \<and> v = determine_verdict a'
     \<and> outcome (perform_analysis p a ticks) =
         (case symbols_line a' of None \<Rightarrow> VerdictProduced a' v | Some e \<Rightarrow> VerdictThenTraceback a' v e)"
proof -
  from assms obtain a1 a2 a3 a4 where
    1: "analyze_lp a ticks = Inr a1" and 2: "analyze_price_patterns p a1 ticks = Inr a2"
    and 3: "analyze_timestamps a2 ticks = Inr a3" and 4: "analyze_spread p a3 ticks = Inr a4"
    by (auto simp: perform_analysis_def split: sum.splits)
  from assms 1 2 3 4 have v: "v = determine_verdict a4"
    by (auto simp: perform_analysis_def generate_verdict_def split: option.splits)
  have o: "outcome (perform_analysis p a ticks) =
         (case symbols_line a4 of None \<Rightarrow> VerdictProduced a4 v | Some e \<Rightarrow> VerdictThenTraceback a4 v e)"
    using 1 2 3 4 v by (simp add: perform_analysis_def generate_verdict_def split: option.splits)
  from analyze_lp_frame [OF 1] analyze_price_patterns_frame [OF 2] analyze_timestamps_frame [OF 3]
    analyze_spread_frame [OF 4] v o
  show ?thesis by (intro exI [of _ a4]) simp
qed

lemma verdict_SIMULATED_iff: "(determine_verdict a = SIMULATED) = (KStr ''SIMULATED'' \<in> lp_sources a)"
  by (simp add: determine_verdict_def)

lemma tick_lp_SIMULATED:
  "(hash_key (tick_lp t) = Inr (KStr ''SIMULATED'')) = (lp t = Some (Scalar (SStr ''SIMULATED'')))"
proof (cases "lp t")
  case None
  then show ?thesis by (simp add: tick_lp_def)
next
  case (Some j)
  show ?thesis
  proof (cases j)
    case (Scalar s)
    with Some show ?thesis by (cases s) (simp_all add: tick_lp_def)
  next
    case Container
    with Some show ?thesis by (simp add: tick_lp_def)
  qed
qed

subsection \<open>Where the buffered ticks come from\<close>

lemma set_concat_update:
  "set (concat (map snd (AList.update k (dd_get d k @ [v]) d))) = insert v (set (concat (map snd d)))"
  by (induction d) (auto simp: dd_get_def)

lemma all_ticks_tick_state: "set (all_ticks (tick_state g s t)) \<subseteq> insert t (set (all_ticks g))"
proof (cases "length (dd_get (captured_ticks g) s) < CAPTURE_COUNT")
  case True
  then have "all_ticks (tick_state g s t)
      = concat (map snd (AList.update s (dd_get (captured_ticks g) s @ [t]) (captured_ticks g)))"
    by (simp add: all_ticks_def tick_state_def store_tick_def dd_append_def)
  then show ?thesis
    by (simp only: set_concat_update all_ticks_def)
next
  case False
  then have "all_ticks (tick_state g s t) = all_ticks g"
    by (simp add: all_ticks_def tick_state_def store_tick_def)
  then show ?thesis by auto
qed

lemma all_ticks_printed: "all_ticks (g\<lparr>printed := p\<rparr>) = all_ticks g"
  by (simp add: all_ticks_def)

lemma all_ticks_step:
  assumes "loop_body p g ev = Continue g' \<or> loop_body p g ev = Break g'"
  shows "set (all_ticks g') \<subseteq> set (all_ticks g) \<union> {t. ev = Object t}"
proof (cases ev)
  case (Object t)
  show ?thesis
  proof (cases "is_tick t")
    case True
    with assms Object have "on_tick p g t = Continue g' \<or> on_tick p g t = Break g'" by simp
    from on_tick_result [OF this] obtain s where
      "g' = tick_state g s t \<or> (\<exists>q. g' = (tick_state g s t)\<lparr>printed := q\<rparr>)" by blast
    with all_ticks_tick_state [of g s t] Object show ?thesis
      by (auto simp: all_ticks_printed)
  next
    case False
    with assms Object show ?thesis by auto
  qed
qed (use assms in \<open>auto simp: all_ticks_printed\<close>)

lemma all_ticks_receive_loop:
  "receive_loop p g evs = Completed g' \<or> receive_loop p g evs = DeadlineReached g'
   \<Longrightarrow> set (all_ticks g') \<subseteq> set (all_ticks g) \<union> {t. Object t \<in> set evs}"
proof (induction evs arbitrary: g)
  case Nil
  then show ?case by simp
next
  case (Cons ev evs)
  show ?case
  proof (cases "loop_body p g ev")
    case (Continue g1)
    with all_ticks_step [of p g ev g1] have "set (all_ticks g1) \<subseteq> set (all_ticks g) \<union> {t. ev = Object t}"
      by simp
    moreover from Cons.IH [of g1] Cons.prems Continue
    have "set (all_ticks g') \<subseteq> set (all_ticks g1) \<union> {t. Object t \<in> set evs}" by simp
    ultimately show ?thesis by auto
  next
    case (Break g1)
    with all_ticks_step [of p g ev g1] Cons.prems show ?thesis by auto
  qed (use Cons.prems in auto)
qed

lemma labels_tick_state:
  "lp_sources (analysis (tick_state g s t)) = lp_sources (analysis g)"
  "evidence (analysis (tick_state g s t)) = evidence (analysis g)"
  by (simp_all add: tick_state_def store_tick_def)

lemma labels_step:
  assumes "loop_body p g ev = Continue g' \<or> loop_body p g ev = Break g'"
  shows "lp_sources (analysis g') = lp_sources (analysis g) \<and> evidence (analysis g') = evidence (analysis g)"
proof (cases ev)
  case (Object t)
  show ?thesis
  proof (cases "is_tick t")
    case True
    with assms Object have "on_tick p g t = Continue g' \<or> on_tick p g t = Break g'" by simp
    from on_tick_result [OF this] obtain s where
      "g' = tick_state g s t \<or> (\<exists>q. g' = (tick_state g s t)\<lparr>printed := q\<rparr>)" by blast
    then show ?thesis
    proof (elim disjE exE)
      assume "g' = tick_state g s t"
      then show ?thesis by (simp add: labels_tick_state)
    next
      fix q assume "g' = (tick_state g s t)\<lparr>printed := q\<rparr>"
      then show ?thesis by (simp add: labels_tick_state)
    qed
  next
    case False
    with assms Object show ?thesis by auto
  qed
qed (use assms in auto)

lemma receive_loop_labels:
  "receive_loop p g evs = Completed g' \<or> receive_loop p g evs = DeadlineReached g'
   \<Longrightarrow> lp_sources (analysis g') = lp_sources (analysis g) \<and> evidence (analysis g') = evidence (analysis g)"
proof (induction evs arbitrary: g)
  case Nil
  then show ?case by simp
next
  case (Cons ev evs)
  show ?case
  proof (cases "loop_body p g ev")
    case (Continue g1)
    with labels_step [of p g ev g1] Cons.IH [of g1] Cons.prems show ?thesis by simp
  next
    case (Break g1)
    with labels_step [of p g ev g1] Cons.prems show ?thesis by auto
  qed (use Cons.prems in auto)
qed

text \<open>What a session that printed a verdict went through.\<close>

lemma session_verdict:
  assumes "verdict_of (outcome (capture_and_analyze p c evs)) = Some v"
  shows "\<exists>g. c \<and> (receive_loop p initial_globals evs = Completed g
                  \<or> receive_loop p initial_globals evs = DeadlineReached g)
     \<and> all_ticks g \<noteq> []
     \<and> capture_and_analyze p c evs = perform_analysis p (analysis g) (all_ticks g)"
proof -
  from assms have c: c
    by (auto simp: capture_and_analyze_def split: if_splits)
  from assms c obtain g where
    g: "receive_loop p initial_globals evs = Completed g \<or> receive_loop p initial_globals evs = DeadlineReached g"
    by (cases "receive_loop p initial_globals evs") (auto simp: capture_and_analyze_def)
  with assms c have ne: "all_ticks g \<noteq> []"
    by (auto simp: capture_and_analyze_def after_capture_def split: if_splits)
  with g c have "capture_and_analyze p c evs = perform_analysis p (analysis g) (all_ticks g)"
    by (auto simp: capture_and_analyze_def after_capture_def)
  with c g ne show ?thesis by blast
qed

lemma session_verdict_SIMULATED:
  assumes "verdict_of (outcome (capture_and_analyze p c evs)) = Some SIMULATED"
  shows "\<exists>t. Object t \<in> set evs \<and> lp t = Some (Scalar (SStr ''SIMULATED''))"
proof -
  from session_verdict [OF assms] obtain g where
    g: "receive_loop p initial_globals evs = Completed g \<or> receive_loop p initial_globals evs = DeadlineReached g"
    and e: "capture_and_analyze p c evs = perform_analysis p (analysis g) (all_ticks g)"
    by blast
  from receive_loop_labels [OF g] have ls: "lp_sources (analysis g) = {}"
    by (simp add: initial_globals_def)
  from assms e have "verdict_of (outcome (perform_analysis p (analysis g) (all_ticks g))) = Some SIMULATED"
    by simp
  from perform_analysis_verdict [OF this] obtain a' where
    "lp_sources a' = lp_sources (analysis g) \<union> {k. \<exists>t\<in>set (all_ticks g). hash_key (tick_lp t) = Inr k}"
    and "SIMULATED = determine_verdict a'"
    by blast
  with ls have "\<exists>t\<in>set (all_ticks g). hash_key (tick_lp t) = Inr (KStr ''SIMULATED'')"
    using verdict_SIMULATED_iff [of a'] by auto
  then obtain t where "t \<in> set (all_ticks g)" "lp t = Some (Scalar (SStr ''SIMULATED''))"
    by (auto simp: tick_lp_SIMULATED)
  with all_ticks_receive_loop [OF g] show ?thesis
    by (auto simp: all_ticks_def initial_globals_def)
qed

subsection \<open>The analyzers and their specification\<close>


































subsection \<open>The polarity of the lines that the analyzers append\<close>

lemma polarity_of_messages:
  "polarity_of lp_simulated_msg = Some SupportsSimulated"
  "polarity_of lp_real_msg = Some SupportsReal"
  "polarity_of (price_low_msg s r) = Some SupportsSimulated"
  "polarity_of (price_high_msg s r) = Some SupportsReal"
  "polarity_of (ts_regular_msg m) = Some SupportsSimulated"
  "polarity_of ts_irregular_msg = Some SupportsReal"
  "polarity_of (spread_consistent_msg s c) = Some SupportsSimulated"
  "polarity_of (spread_variable_msg s) = Some SupportsReal"
  by (simp_all add: polarity_of_def lp_simulated_msg_def lp_real_msg_def price_low_msg_def
      price_high_msg_def ts_regular_msg_def ts_irregular_msg_def spread_consistent_msg_def
      spread_variable_msg_def WARN_def CROSS_def CHECK_def)

lemma sublist_split:
  assumes "c \<notin> set m"
  shows "sublist m (xs @ c # ys) \<longleftrightarrow> sublist m xs \<or> sublist m ys"
proof
  assume "sublist m (xs @ c # ys)"
  then consider "sublist m xs" | "sublist m (c # ys)"
    | m1 m2 where "m = m1 @ m2" "suffix m1 xs" "prefix m2 (c # ys)"
    unfolding sublist_append by blast
  then show "sublist m xs \<or> sublist m ys"
  proof cases
    case 1
    then show ?thesis by simp
  next
    case 2
    then have "prefix m (c # ys) \<or> sublist m ys" by (simp add: sublist_Cons_right)
    moreover have "m = []" if "prefix m (c # ys)"
      using that assms by (cases m) auto
    ultimately show ?thesis by auto
  next
    case 3
    have "m2 = []"
      using 3(1,3) assms by (cases m2) auto
    with 3 have "suffix m xs" by simp
    then show ?thesis by (auto simp: suffix_def)
  qed
next
  assume "sublist m xs \<or> sublist m ys"
  then show "sublist m (xs @ c # ys)"
    by (auto simp: sublist_def) (metis append.assoc append_Cons)+
qed

lemma sandwich:
  assumes "c1 \<notin> set m" "c2 \<notin> set m" "\<not> sublist m pre" "\<not> sublist m s" "\<not> sublist m post"
  shows "\<not> sublist m (pre @ c1 # s @ c2 # post)"
  using assms by (simp add: sublist_split)

lemma no_lead_byte:
  assumes "CHR 0xE2 \<notin> set xs"
  shows "\<not> sublist WARN xs" and "\<not> sublist CROSS xs" and "\<not> sublist CHECK xs"
  using assms set_mono_sublist [of WARN xs] set_mono_sublist [of CROSS xs] set_mono_sublist [of CHECK xs]
  by (auto simp: WARN_def CROSS_def CHECK_def)

lemma digit_char_ascii: "CHR 0xE2 \<noteq> digit_char d" if "0 \<le> d" "d < 10"
proof
  assume "CHR 0xE2 = digit_char d"
  then have "(of_char (char_of (48 + d) :: char) :: int) = of_char (CHR 0xE2)"
    by (simp add: digit_char_def)
  with that show False by simp
qed

lemma digit_char_mod_ascii: "CHR 0xE2 \<noteq> digit_char (m mod 10)"
  by (rule digit_char_ascii) simp_all

lemma dec_digits_ascii: "0 \<le> n \<Longrightarrow> CHR 0xE2 \<notin> set (dec_digits n)"
proof (induction n rule: dec_digits.induct)
  case (1 n)
  show ?case
  proof (cases "n < 10")
    case True
    with 1 show ?thesis by (simp add: dec_digits.simps [of n] digit_char_ascii)
  next
    case False
    with 1 have "CHR 0xE2 \<notin> set (dec_digits (n div 10))" by simp
    with False show ?thesis
      by (simp add: dec_digits.simps [of n] digit_char_mod_ascii)
  qed
qed

lemma frac_digits_ascii: "CHR 0xE2 \<notin> set (frac_digits k m)"
  by (induction k m rule: frac_digits.induct) (simp_all add: digit_char_mod_ascii)

lemma round_half_even_nonneg: "0 \<le> round_half_even r" if "0 \<le> r"
proof -
  obtain p q where pq: "quotient_of r = (p, q)" by (cases "quotient_of r")
  then have q: "0 < q" and r: "r = of_int p / of_int q"
    by (simp_all add: quotient_of_denom_pos quotient_of_div)
  from that q r have "0 \<le> p"
    by (simp add: zero_le_divide_iff)
  with q have "0 \<le> p div q"
    by (simp add: pos_imp_zdiv_nonneg_iff)
  then have "0 \<le> rhe_div p q"
    by (auto simp: rhe_div_def Let_def)
  with pq show ?thesis by (simp add: round_half_even_def)
qed

lemma format_f_ascii: "CHR 0xE2 \<notin> set (format_f k x)"
proof -
  have "0 \<le> round_half_even (\<bar>x\<bar> * 10 ^ k)"
    by (rule round_half_even_nonneg) simp
  then have "0 \<le> round_half_even (\<bar>x\<bar> * 10 ^ k) div 10 ^ k"
    by (simp add: pos_imp_zdiv_nonneg_iff)
  then show ?thesis
    by (simp add: format_f_def Let_def dec_digits_ascii frac_digits_ascii)
qed

lemma price_low_msg_glyphs:
  "simulated_indicator (price_low_msg s r)"
  "marker_free s \<Longrightarrow> \<not> real_indicator (price_low_msg s r)"
proof -
  show "simulated_indicator (price_low_msg s r)"
    by (simp add: simulated_indicator_def price_low_msg_def)
  assume "marker_free s"
  then have s: "\<not> sublist CHECK s" by (simp add: marker_free_def)
  have e: "price_low_msg s r =
      (WARN @ '' '') @ CHR '' '' # s @ CHR '':'' #
        ('' Low regularity ratio ('' @ format_f 3 r @ '') suggests simulated data'')"
    by (simp add: price_low_msg_def)
  have p: "\<not> sublist CHECK (WARN @ '' '')"
    by code_simp
  have q: "\<not> sublist CHECK ('' Low regularity ratio ('' @ format_f 3 r @ '') suggests simulated data'')"
    by (rule no_lead_byte) (simp add: format_f_ascii)
  show "\<not> real_indicator (price_low_msg s r)"
    unfolding real_indicator_def e
    by (rule sandwich [OF _ _ p s q]) (simp_all add: CHECK_def)
qed

lemma price_high_msg_glyphs:
  "real_indicator (price_high_msg s r)"
  "marker_free s \<Longrightarrow> \<not> simulated_indicator (price_high_msg s r)"
proof -
  show "real_indicator (price_high_msg s r)"
    by (simp add: real_indicator_def price_high_msg_def)
  assume "marker_free s"
  then have s: "\<not> sublist WARN s" "\<not> sublist CROSS s" by (simp_all add: marker_free_def)
  have e: "price_high_msg s r =
      CHECK @ CHR '' '' # s @ CHR '':'' #
        ('' High price variation ('' @ format_f 3 r @ '') suggests real market data'')"
    by (simp add: price_high_msg_def)
  have p: "\<not> sublist WARN CHECK" "\<not> sublist CROSS CHECK"
    by code_simp+
  have q: "\<not> sublist WARN ('' High price variation ('' @ format_f 3 r @ '') suggests real market data'')"
    "\<not> sublist CROSS ('' High price variation ('' @ format_f 3 r @ '') suggests real market data'')"
    by (rule no_lead_byte, simp add: format_f_ascii)+
  have "\<not> sublist WARN (price_high_msg s r)"
    unfolding e by (rule sandwich [OF _ _ p(1) s(1) q(1)]) (simp_all add: WARN_def)
  moreover have "\<not> sublist CROSS (price_high_msg s r)"
    unfolding e by (rule sandwich [OF _ _ p(2) s(2) q(2)]) (simp_all add: CROSS_def)
  ultimately show "\<not> simulated_indicator (price_high_msg s r)"
    by (simp add: simulated_indicator_def)
qed

lemma spread_consistent_msg_glyphs:
  "simulated_indicator (spread_consistent_msg s c)"
  "marker_free s \<Longrightarrow> \<not> real_indicator (spread_consistent_msg s c)"
proof -
  show "simulated_indicator (spread_consistent_msg s c)"
    by (simp add: simulated_indicator_def spread_consistent_msg_def)
  assume "marker_free s"
  then have s: "\<not> sublist CHECK s" by (simp add: marker_free_def)
  have e: "spread_consistent_msg s c =
      (WARN @ '' '') @ CHR '' '' # s @ CHR '':'' #
        ('' Perfectly consistent spread ('' @ format_f 1 (float_mul c 100) @ ''%) suggests simulation'')"
    by (simp add: spread_consistent_msg_def)
  have p: "\<not> sublist CHECK (WARN @ '' '')"
    by code_simp
  have q: "\<not> sublist CHECK ('' Perfectly consistent spread ('' @ format_f 1 (float_mul c 100) @ ''%) suggests simulation'')"
    by (rule no_lead_byte) (simp add: format_f_ascii)
  show "\<not> real_indicator (spread_consistent_msg s c)"
    unfolding real_indicator_def e
    by (rule sandwich [OF _ _ p s q]) (simp_all add: CHECK_def)
qed

lemma spread_variable_msg_glyphs:
  "real_indicator (spread_variable_msg s)"
  "marker_free s \<Longrightarrow> \<not> simulated_indicator (spread_variable_msg s)"
proof -
  show "real_indicator (spread_variable_msg s)"
    by (simp add: real_indicator_def spread_variable_msg_def)
  assume "marker_free s"
  then have s: "\<not> sublist WARN s" "\<not> sublist CROSS s" by (simp_all add: marker_free_def)
  have e: "spread_variable_msg s =
      CHECK @ CHR '' '' # s @ CHR '':'' # '' Variable spread suggests real market conditions''"
    by (simp add: spread_variable_msg_def)
  have p: "\<not> sublist WARN CHECK" "\<not> sublist CROSS CHECK"
    by code_simp+
  have q: "\<not> sublist WARN '' Variable spread suggests real market conditions''"
    "\<not> sublist CROSS '' Variable spread suggests real market conditions''"
    by (rule no_lead_byte, simp)+
  have "\<not> sublist WARN (spread_variable_msg s)"
    unfolding e by (rule sandwich [OF _ _ p(1) s(1) q(1)]) (simp_all add: WARN_def)
  moreover have "\<not> sublist CROSS (spread_variable_msg s)"
    unfolding e by (rule sandwich [OF _ _ p(2) s(2) q(2)]) (simp_all add: CROSS_def)
  ultimately show "\<not> simulated_indicator (spread_variable_msg s)"
    by (simp add: simulated_indicator_def)
qed

lemma ts_regular_msg_glyphs:
  "simulated_indicator (ts_regular_msg m)"
  "\<not> real_indicator (ts_regular_msg m)"
proof -
  show "simulated_indicator (ts_regular_msg m)"
    by (simp add: simulated_indicator_def ts_regular_msg_def)
  have e: "ts_regular_msg m =
      (WARN @ '' '') @ CHR '' '' # ''Very'' @ CHR '' '' #
        (''regular timestamp intervals ('' @ format_f 2 m @ ''s) suggests simulation'')"
    by (simp add: ts_regular_msg_def)
  have p: "\<not> sublist CHECK (WARN @ '' '')" "\<not> sublist CHECK ''Very''"
    by code_simp+
  have q: "\<not> sublist CHECK (''regular timestamp intervals ('' @ format_f 2 m @ ''s) suggests simulation'')"
    by (rule no_lead_byte) (simp add: format_f_ascii)
  show "\<not> real_indicator (ts_regular_msg m)"
    unfolding real_indicator_def e
    by (rule sandwich [OF _ _ p q]) (simp_all add: CHECK_def)
qed

lemma fixed_msg_glyphs:
  "real_indicator ts_irregular_msg" "\<not> simulated_indicator ts_irregular_msg"
  "real_indicator lp_real_msg" "\<not> simulated_indicator lp_real_msg"
  "simulated_indicator lp_simulated_msg" "\<not> real_indicator lp_simulated_msg"
  by code_simp+

lemma glyphs_agree_messages:
  "glyphs_agree lp_simulated_msg"
  "glyphs_agree lp_real_msg"
  "marker_free s \<Longrightarrow> glyphs_agree (price_low_msg s r)"
  "marker_free s \<Longrightarrow> glyphs_agree (price_high_msg s r)"
  "glyphs_agree (ts_regular_msg m)"
  "glyphs_agree ts_irregular_msg"
  "marker_free s \<Longrightarrow> glyphs_agree (spread_consistent_msg s c)"
  "marker_free s \<Longrightarrow> glyphs_agree (spread_variable_msg s)"
proof -
  show "glyphs_agree lp_simulated_msg" "glyphs_agree lp_real_msg" "glyphs_agree ts_irregular_msg"
    using fixed_msg_glyphs by (simp_all add: glyphs_agree_def polarity_of_messages)
  show "glyphs_agree (ts_regular_msg m)"
    using ts_regular_msg_glyphs [of m] by (simp add: glyphs_agree_def polarity_of_messages)
  show "glyphs_agree (price_low_msg s r)" if "marker_free s"
    using price_low_msg_glyphs [of s r] that by (simp add: glyphs_agree_def polarity_of_messages)
  show "glyphs_agree (price_high_msg s r)" if "marker_free s"
    using price_high_msg_glyphs [of s r] that by (simp add: glyphs_agree_def polarity_of_messages)
  show "glyphs_agree (spread_consistent_msg s c)" if "marker_free s"
    using spread_consistent_msg_glyphs [of s c] that by (simp add: glyphs_agree_def polarity_of_messages)
  show "glyphs_agree (spread_variable_msg s)" if "marker_free s"
    using spread_variable_msg_glyphs [of s] that by (simp add: glyphs_agree_def polarity_of_messages)
qed

text \<open>The texts of the scalars that are no strings hold no glyph, whatever the platform
  prints for a float, as long as that is ASCII.\<close>

lemma int_str_ascii: "CHR 0xE2 \<notin> set (int_str i)"
  by (simp add: int_str_def dec_digits_ascii)

lemma marker_free_ascii: "CHR 0xE2 \<notin> set s \<Longrightarrow> marker_free s"
  by (simp add: marker_free_def no_lead_byte)

subsection \<open>The lines of a run whose symbols hold no glyph\<close>

lemma for_items_invariant:
  assumes "for_items body a xs = Inr a'" and "P a"
    and "\<And>a x a'. x \<in> set xs \<Longrightarrow> P a \<Longrightarrow> body a x = Inr a' \<Longrightarrow> P a'"
  shows "P a'"
  using assms
proof (induction xs arbitrary: a)
  case Nil
  then show ?case by simp
next
  case (Cons x xs)
  from Cons.prems(1) obtain a1 where a1: "body a x = Inr a1" and r: "for_items body a1 xs = Inr a'"
    by (auto split: sum.splits)
  from Cons.prems(3) [OF _ Cons.prems(2) a1] have a1P: "P a1" by simp
  show ?case
  proof (rule Cons.IH [OF r a1P])
    fix a0 y a2 assume "y \<in> set xs" "P a0" "body a0 y = Inr a2"
    then show "P a2" using Cons.prems(3) [of y a0 a2] by simp
  qed
qed

lemma dict_append_keys: "fst ` set (dict_append d s v) \<subseteq> insert s (fst ` set d)"
proof (induction d)
  case Nil
  then show ?case by simp
next
  case (Cons e d)
  obtain a b where e: "e = (a, b)" by (cases e)
  show ?case
  proof (cases "key_of a = key_of s")
    case True
    with e show ?thesis by auto
  next
    case False
    with e have "fst ` set (dict_append (e # d) s v) = insert a (fst ` set (dict_append d s v))"
      by simp
    with Cons e show ?thesis by auto
  qed
qed

lemma group_by_symbol_keys:
  "group_by_symbol acc ticks = Inr d \<Longrightarrow>
     fst ` set d \<subseteq> fst ` set acc \<union> {s. \<exists>t\<in>set ticks. symbol t = Some (Scalar s)}"
proof (induction acc ticks rule: group_by_symbol.induct)
  case (1 by_symbol)
  then show ?case by simp
next
  case (2 by_symbol t ts)
  from "2.prems" obtain s where s: "symbol t = Some (Scalar s)"
    and r: "group_by_symbol (dict_append by_symbol s t) ts = Inr d"
    by (auto simp: getitem_def split: option.splits json.splits)
  from s have g: "getitem symbol ''symbol'' t = Inr (Scalar s)"
    by (simp add: getitem_def)
  from "2.IH" [OF g refl r] dict_append_keys [of by_symbol s t] s show ?case
    by auto
qed

lemma lp_items_agree:
  "list_all glyphs_agree (evidence a) \<Longrightarrow> list_all glyphs_agree (evidence (lp_items a items))"
  by (induction a items rule: lp_items.induct) (auto simp: append_evidence_def glyphs_agree_messages)

lemma analyze_lp_agree:
  assumes "analyze_lp a ticks = Inr a'" and "list_all glyphs_agree (evidence a)"
  shows "list_all glyphs_agree (evidence a')"
proof -
  from assms(1) obtain c a1 where l: "lp_loop [] a ticks = Inr (c, a1)" and a': "a' = lp_items a1 c"
    by (auto simp: analyze_lp_def split: sum.splits prod.splits)
  from lp_loop_frame [OF l] assms(2) have "list_all glyphs_agree (evidence a1)" by simp
  with a' show ?thesis by (simp add: lp_items_agree)
qed

lemma price_symbol_agree:
  assumes "price_symbol p a g = Inr a'" and "list_all glyphs_agree (evidence a)"
    and "marker_free (py_str p (fst g))"
  shows "list_all glyphs_agree (evidence a')"
  using assms
  by (cases g) (auto simp: price_symbol_def append_evidence_def glyphs_agree_messages
      split: if_splits sum.splits)

lemma spread_symbol_agree:
  assumes "spread_symbol p a g = Inr a'" and "list_all glyphs_agree (evidence a)"
    and "marker_free (py_str p (fst g))"
  shows "list_all glyphs_agree (evidence a')"
  using assms
  by (cases g) (auto simp: spread_symbol_def append_evidence_def glyphs_agree_messages
      split: if_splits sum.splits)

lemma analyze_timestamps_agree:
  assumes "analyze_timestamps a ticks = Inr a'" and "list_all glyphs_agree (evidence a)"
  shows "list_all glyphs_agree (evidence a')"
  using assms
  by (auto simp: analyze_timestamps_def append_evidence_def Let_def glyphs_agree_messages
      split: sum.splits if_splits option.splits)

lemma analyze_price_patterns_agree:
  assumes "analyze_price_patterns p a ticks = Inr a'" and "list_all glyphs_agree (evidence a)"
    and "\<And>t s. t \<in> set ticks \<Longrightarrow> symbol t = Some (Scalar s) \<Longrightarrow> marker_free (py_str p s)"
  shows "list_all glyphs_agree (evidence a')"
proof -
  from assms(1) obtain d where g: "group_by_symbol [] ticks = Inr d"
    and f: "for_items (price_symbol p) a d = Inr a'"
    by (auto simp: analyze_price_patterns_def split: sum.splits)
  show ?thesis
  proof (rule for_items_invariant [OF f, where P = "\<lambda>a. list_all glyphs_agree (evidence a)"])
    show "list_all glyphs_agree (evidence a)" by (rule assms(2))
    fix a0 x a1
    assume x: "x \<in> set d" and a0: "list_all glyphs_agree (evidence a0)"
      and b: "price_symbol p a0 x = Inr a1"
    from x group_by_symbol_keys [OF g] obtain t where "t \<in> set ticks" "symbol t = Some (Scalar (fst x))"
      by auto
    then have "marker_free (py_str p (fst x))" by (rule assms(3))
    with b a0 show "list_all glyphs_agree (evidence a1)" by (rule price_symbol_agree)
  qed
qed

lemma analyze_spread_agree:
  assumes "analyze_spread p a ticks = Inr a'" and "list_all glyphs_agree (evidence a)"
    and "\<And>t s. t \<in> set ticks \<Longrightarrow> symbol t = Some (Scalar s) \<Longrightarrow> marker_free (py_str p s)"
  shows "list_all glyphs_agree (evidence a')"
proof -
  from assms(1) obtain d where g: "group_by_symbol [] ticks = Inr d"
    and f: "for_items (spread_symbol p) a d = Inr a'"
    by (auto simp: analyze_spread_def split: sum.splits)
  show ?thesis
  proof (rule for_items_invariant [OF f, where P = "\<lambda>a. list_all glyphs_agree (evidence a)"])
    show "list_all glyphs_agree (evidence a)" by (rule assms(2))
    fix a0 x a1
    assume x: "x \<in> set d" and a0: "list_all glyphs_agree (evidence a0)"
      and b: "spread_symbol p a0 x = Inr a1"
    from x group_by_symbol_keys [OF g] obtain t where "t \<in> set ticks" "symbol t = Some (Scalar (fst x))"
      by auto
    then have "marker_free (py_str p (fst x))" by (rule assms(3))
    with b a0 show "list_all glyphs_agree (evidence a1)" by (rule spread_symbol_agree)
  qed
qed

lemma perform_analysis_agree:
  assumes "verdict_of (outcome (perform_analysis p a ticks)) = Some v"
    and "list_all glyphs_agree (evidence a)"
    and "\<And>t s. t \<in> set ticks \<Longrightarrow> symbol t = Some (Scalar s) \<Longrightarrow> marker_free (py_str p s)"
  shows "\<exists>a'. list_all glyphs_agree (evidence a') \<and> v = determine_verdict a'
     \<and> (outcome (perform_analysis p a ticks) = VerdictProduced a' v
        \<or> outcome (perform_analysis p a ticks) = VerdictThenTraceback a' v TypeError)"
proof -
  from assms(1) obtain a1 a2 a3 a4 where
    1: "analyze_lp a ticks = Inr a1" and 2: "analyze_price_patterns p a1 ticks = Inr a2"
    and 3: "analyze_timestamps a2 ticks = Inr a3" and 4: "analyze_spread p a3 ticks = Inr a4"
    by (auto simp: perform_analysis_def split: sum.splits)
  from assms(1) 1 2 3 4 have v: "v = determine_verdict a4"
    by (auto simp: perform_analysis_def generate_verdict_def split: option.splits)
  have o: "outcome (perform_analysis p a ticks) = VerdictProduced a4 v
        \<or> outcome (perform_analysis p a ticks) = VerdictThenTraceback a4 v TypeError"
    using 1 2 3 4 v
    by (simp add: perform_analysis_def generate_verdict_def symbols_line_def split: option.splits)
  have "list_all glyphs_agree (evidence a1)"
    by (rule analyze_lp_agree [OF 1 assms(2)])
  then have "list_all glyphs_agree (evidence a2)"
    by (rule analyze_price_patterns_agree [OF 2]) (rule assms(3))
  then have "list_all glyphs_agree (evidence a3)"
    by (rule analyze_timestamps_agree [OF 3])
  then have "list_all glyphs_agree (evidence a4)"
    by (rule analyze_spread_agree [OF 4]) (rule assms(3))
  with v o show ?thesis by blast
qed

lemma counts_agree:
  "list_all glyphs_agree ev \<Longrightarrow>
     length (filter real_indicator ev) = count_real ev
     \<and> length (filter simulated_indicator ev) = count_simulated ev"
  by (induction ev) (auto simp: count_real_def count_simulated_def glyphs_agree_def)

subsection \<open>What an analyzer that returns has done\<close>














section \<open>Properties of the capture\<close>

text \<open>
  C3. Whatever the arrival sequence, no symbol's buffer ever holds more than
  \<open>CAPTURE_COUNT\<close> = 20 ticks: this holds of the state in which the loop stops, after
  every sequence, hence after every prefix of one. A tick that arrives for a symbol whose
  buffer is full, while the loop is running, leaves the buffers as they are (it is dropped,
  nothing is replaced), adds one to the received counter, and its symbol is in the symbol
  set; the loop goes on.
\<close>

theorem buffer_capacity:
  "(receive_loop p initial_globals evs = Completed g \<or> receive_loop p initial_globals evs = DeadlineReached g
      \<longrightarrow> buffered g s \<le> CAPTURE_COUNT)
   \<and> (receive_loop p initial_globals evs = DeadlineReached g \<and> CAPTURE_COUNT \<le> buffered g s
        \<and> is_tick t \<and> symbol_key t = Inr s
      \<longrightarrow> receive_loop p initial_globals (evs @ [Object t])
            = DeadlineReached (g\<lparr>total_tick_count := total_tick_count g + 1\<rparr>)
          \<and> s \<in> symbols (analysis (g\<lparr>total_tick_count := total_tick_count g + 1\<rparr>)))"
proof (intro conjI impI)
  assume "receive_loop p initial_globals evs = Completed g \<or> receive_loop p initial_globals evs = DeadlineReached g"
  then have "capture_inv g"
    by (rule receive_loop_inv [OF capture_inv_initial])
  then show "buffered g s \<le> CAPTURE_COUNT"
    unfolding buffered_def capture_inv_def by (blast intro: dd_get_bound)
next
  assume a: "receive_loop p initial_globals evs = DeadlineReached g \<and> CAPTURE_COUNT \<le> buffered g s
        \<and> is_tick t \<and> symbol_key t = Inr s"
  then have inv: "capture_inv g"
    using receive_loop_inv [OF capture_inv_initial] by blast
  from a have ne: "\<not> enough_data g"
    using receive_loop_not_enough [OF not_enough_initial] by blast
  from a dropped_tick_step [OF inv ne, of s t p]
  have "loop_body p g (Object t) = Continue (g\<lparr>total_tick_count := total_tick_count g + 1\<rparr>)"
    by blast
  with a receive_loop_append [of p initial_globals evs g "[Object t]"]
  show "receive_loop p initial_globals (evs @ [Object t])
            = DeadlineReached (g\<lparr>total_tick_count := total_tick_count g + 1\<rparr>)"
    by simp
  from a full_buffer_facts(1) [OF inv]
  show "s \<in> symbols (analysis (g\<lparr>total_tick_count := total_tick_count g + 1\<rparr>))"
    by simp
qed

theorem buffer_capacity_witness:
  "receive_loop example_platform initial_globals full_x_events = DeadlineReached full_x_state
   \<and> buffered full_x_state (KStr ''X'') = 20
   \<and> receive_loop example_platform initial_globals (full_x_events @ [Object tick_x_sim])
       = DeadlineReached (full_x_state\<lparr>total_tick_count := total_tick_count full_x_state + 1\<rparr>)
   \<and> KStr ''X'' \<in> symbols (analysis (full_x_state\<lparr>total_tick_count := total_tick_count full_x_state + 1\<rparr>))"
proof -
  have 1: "receive_loop example_platform initial_globals full_x_events = DeadlineReached full_x_state"
    by code_simp
  have 2: "buffered full_x_state (KStr ''X'') = 20"
    by code_simp
  have 3: "is_tick tick_x_sim \<and> symbol_key tick_x_sim = Inr (KStr ''X'')"
    by code_simp
  from 2 have 4: "CAPTURE_COUNT \<le> buffered full_x_state (KStr ''X'')"
    by (simp add: CAPTURE_COUNT_def)
  from buffer_capacity [of example_platform full_x_events full_x_state "KStr ''X''" tick_x_sim] 1 3 4
  have "receive_loop example_platform initial_globals (full_x_events @ [Object tick_x_sim])
       = DeadlineReached (full_x_state\<lparr>total_tick_count := total_tick_count full_x_state + 1\<rparr>)
   \<and> KStr ''X'' \<in> symbols (analysis (full_x_state\<lparr>total_tick_count := total_tick_count full_x_state + 1\<rparr>))"
    by blast
  with 1 2 show ?thesis by blast
qed

text \<open>
  C4, as amended. A message that \<^verbatim>\<open>json.loads\<close> rejects with \<^verbatim>\<open>JSONDecodeError\<close> is logged
  and skipped: the iteration continues with the buffers, the counter and the analysis
  unchanged (only the parse-error line is printed), the loop goes on with the next
  message, and the session ends exactly as it would have without the message. A message
  on which \<^verbatim>\<open>json.loads\<close> raises another exception is not skipped: whatever was captured,
  the session ends as a connection error with exit status 1 and no analyzer call.
\<close>

theorem malformed_is_skipped:
  "loop_body p g Malformed = Continue (g\<lparr>printed := printed g @ [ParseErrorLine]\<rparr>)
   \<and> receive_loop p g (Malformed # evs) = receive_loop p (g\<lparr>printed := printed g @ [ParseErrorLine]\<rparr>) evs
   \<and> capture_and_analyze p c (pre @ Malformed # post) = capture_and_analyze p c (pre @ post)
   \<and> (receive_loop p initial_globals pre = DeadlineReached g'
        \<longrightarrow> capture_and_analyze p True (pre @ LoadsRaises e # post) = \<lparr>outcome = ConnectionError, calls = []\<rparr>
            \<and> exit_code (outcome (capture_and_analyze p True (pre @ LoadsRaises e # post))) = 1)"
proof -
  have "after_loop p (receive_loop p g0 (pre @ Malformed # post)) = after_loop p (receive_loop p g0 (pre @ post))" for g0
  proof (induction pre arbitrary: g0)
    case Nil
    have "loop_sim (receive_loop p (g0\<lparr>printed := printed g0 @ [ParseErrorLine]\<rparr>) post) (receive_loop p g0 post)"
      by (rule receive_loop_sim) (rule sim_printed)
    then show ?case
      by (simp add: after_loop_sim)
  next
    case (Cons ev pre)
    then show ?case
      by (cases "loop_body p g0 ev") simp_all
  qed
  moreover have "capture_and_analyze p True (pre @ LoadsRaises e # post) = \<lparr>outcome = ConnectionError, calls = []\<rparr>"
    if "receive_loop p initial_globals pre = DeadlineReached g'"
    using receive_loop_append [OF that, of "LoadsRaises e # post"]
    by (simp add: capture_and_analyze_def)
  ultimately show ?thesis
    by (simp add: capture_and_analyze_def)
qed

theorem malformed_is_skipped_witness:
  "loop_body example_platform one_tick_state Malformed
     = Continue (one_tick_state\<lparr>printed := printed one_tick_state @ [ParseErrorLine]\<rparr>)
   \<and> capture_and_analyze example_platform True ([Object tick_x] @ Malformed # [Object tick_y])
       = capture_and_analyze example_platform True ([Object tick_x] @ [Object tick_y])
   \<and> receive_loop example_platform initial_globals [Object tick_x] = DeadlineReached one_tick_state
   \<and> capture_and_analyze example_platform True ([Object tick_x] @ LoadsRaises RecursionError # [Object tick_y])
       = \<lparr>outcome = ConnectionError, calls = []\<rparr>"
proof -
  have 1: "receive_loop example_platform initial_globals [Object tick_x] = DeadlineReached one_tick_state"
    by code_simp
  from malformed_is_skipped [of example_platform one_tick_state "[]" True "[Object tick_x]" "[Object tick_y]"
      one_tick_state RecursionError] 1
  show ?thesis by blast
qed

text \<open>
  The claim C4 as it stands fails: a binary frame that is not valid UTF-8 does not parse,
  \<^verbatim>\<open>json.loads\<close> raises \<^verbatim>\<open>UnicodeDecodeError\<close>, which is no \<^verbatim>\<open>JSONDecodeError\<close>, and the
  session ends with a connection error, where without the frame it prints a verdict.
\<close>

theorem undecodable_frame_ends_the_session:
  "capture_and_analyze example_platform True [Object tick_x, LoadsRaises UnicodeDecodeError, Object tick_y]
     = \<lparr>outcome = ConnectionError, calls = []\<rparr>
   \<and> exit_code (outcome (capture_and_analyze example_platform True
        [Object tick_x, LoadsRaises UnicodeDecodeError, Object tick_y])) = 1
   \<and> verdict_of (outcome (capture_and_analyze example_platform True [Object tick_x, Object tick_y]))
       = Some REAL
   \<and> exit_code (outcome (capture_and_analyze example_platform True [Object tick_x, Object tick_y])) = 0"
proof -
  have 1: "capture_and_analyze example_platform True [Object tick_x, LoadsRaises UnicodeDecodeError, Object tick_y]
     = \<lparr>outcome = ConnectionError, calls = []\<rparr>"
    by code_simp
  have 2: "verdict_of (outcome (capture_and_analyze example_platform True [Object tick_x, Object tick_y]))
       = Some REAL"
    by code_simp
  have 3: "exit_code (outcome (capture_and_analyze example_platform True [Object tick_x, Object tick_y])) = 0"
    by code_simp
  from 1 2 3 show ?thesis by simp
qed

text \<open>
  C9. Ticks that meet a full buffer cannot influence the outcome: two arrival sequences
  that are the same once those ticks are left out end in the same run (the same outcome,
  with the same label set, evidence and verdict, and the same analyzer calls). In
  particular the verdict is \<open>SIMULATED\<close> only if a tick that was not dropped carries the
  label: a \<^verbatim>\<open>SIMULATED\<close> label carried by dropped ticks alone never gives that verdict.
\<close>

theorem dropped_ticks_do_not_matter:
  "(strip_dropped (\<lambda>s. 0) evs1 = strip_dropped (\<lambda>s. 0) evs2
      \<longrightarrow> capture_and_analyze p c evs1 = capture_and_analyze p c evs2)
   \<and> (verdict_of (outcome (capture_and_analyze p c evs)) = Some SIMULATED
      \<longrightarrow> list_ex carries_simulated (strip_dropped (\<lambda>s. 0) evs))"
proof (intro conjI impI)
  assume "strip_dropped (\<lambda>s. 0) evs1 = strip_dropped (\<lambda>s. 0) evs2"
  with session_strip_dropped [of p c evs1] session_strip_dropped [of p c evs2]
  show "capture_and_analyze p c evs1 = capture_and_analyze p c evs2" by simp
next
  assume "verdict_of (outcome (capture_and_analyze p c evs)) = Some SIMULATED"
  then have "verdict_of (outcome (capture_and_analyze p c (strip_dropped (\<lambda>s. 0) evs))) = Some SIMULATED"
    by (simp add: session_strip_dropped [symmetric])
  from session_verdict_SIMULATED [OF this] obtain t where
    "Object t \<in> set (strip_dropped (\<lambda>s. 0) evs)" "lp t = Some (Scalar (SStr ''SIMULATED''))" by blast
  then have "\<exists>ev\<in>set (strip_dropped (\<lambda>s. 0) evs). carries_simulated ev"
    by (intro bexI [of _ "Object t"]) simp_all
  then show "list_ex carries_simulated (strip_dropped (\<lambda>s. 0) evs)"
    by (simp add: list_ex_iff)
qed

theorem dropped_ticks_do_not_matter_witness:
  "strip_dropped (\<lambda>s. 0) (full_x_events @ [Object tick_x_sim]) = strip_dropped (\<lambda>s. 0) full_x_events
   \<and> capture_and_analyze example_platform True (full_x_events @ [Object tick_x_sim])
       = capture_and_analyze example_platform True full_x_events
   \<and> lp tick_x_sim = Some (Scalar (SStr ''SIMULATED''))
   \<and> verdict_of (outcome (capture_and_analyze example_platform True (full_x_events @ [Object tick_x_sim])))
       \<noteq> Some SIMULATED"
proof -
  have 1: "strip_dropped (\<lambda>s. 0) (full_x_events @ [Object tick_x_sim]) = strip_dropped (\<lambda>s. 0) full_x_events"
    by code_simp
  have 2: "\<not> list_ex carries_simulated (strip_dropped (\<lambda>s. 0) (full_x_events @ [Object tick_x_sim]))"
    by code_simp
  have 3: "lp tick_x_sim = Some (Scalar (SStr ''SIMULATED''))"
    by code_simp
  from dropped_ticks_do_not_matter [of "full_x_events @ [Object tick_x_sim]" full_x_events
      example_platform True "full_x_events @ [Object tick_x_sim]"] 1 2 3
  show ?thesis by blast
qed

section \<open>Properties of the session\<close>

lemma symbols_step:
  assumes "loop_body p g ev = Continue g' \<or> loop_body p g ev = Break g'"
  shows "symbols (analysis g) \<subseteq> symbols (analysis g')"
proof (cases ev)
  case (Object t)
  show ?thesis
  proof (cases "is_tick t")
    case True
    with assms Object have "on_tick p g t = Continue g' \<or> on_tick p g t = Break g'" by simp
    from on_tick_result [OF this] obtain s where
      "g' = tick_state g s t \<or> (\<exists>q. g' = (tick_state g s t)\<lparr>printed := q\<rparr>)" by blast
    then show ?thesis
      by (auto simp: tick_state_def store_tick_def)
  next
    case False
    with assms Object show ?thesis by auto
  qed
qed (use assms in auto)

lemma session_symbols:
  assumes "verdict_of (outcome (capture_and_analyze p c evs)) = Some v"
    and "receive_loop p initial_globals evs = Completed g \<or> receive_loop p initial_globals evs = DeadlineReached g"
  shows "outcome (capture_and_analyze p c evs) =
     (if \<forall>k\<in>symbols (analysis g). is_str_key k
      then VerdictProduced (case outcome (capture_and_analyze p c evs) of VerdictProduced a w \<Rightarrow> a) v
      else VerdictThenTraceback
             (case outcome (capture_and_analyze p c evs) of VerdictThenTraceback a w e \<Rightarrow> a) v TypeError)"
proof -
  from session_verdict [OF assms(1)] assms(2) have
    e: "capture_and_analyze p c evs = perform_analysis p (analysis g) (all_ticks g)"
    by auto
  with assms(1) have "verdict_of (outcome (perform_analysis p (analysis g) (all_ticks g))) = Some v"
    by simp
  from perform_analysis_verdict [OF this] obtain a' where
    s: "symbols a' = symbols (analysis g)"
    and o: "outcome (perform_analysis p (analysis g) (all_ticks g)) =
         (case symbols_line a' of None \<Rightarrow> VerdictProduced a' v | Some e \<Rightarrow> VerdictThenTraceback a' v e)"
    by blast
  from s o e show ?thesis
    by (simp add: symbols_line_def)
qed

text \<open>
  C5, as amended. A failed connect gives a connection error and an empty capture (the
  loop has stopped with the received counter at zero) gives the no-ticks error: both exit
  with status 1, and in both no analyzer is called. An interrupt exits with status 0.
  When the loop stops after at least one tick was received, the analyzers are called.
  When a verdict is printed and every symbol seen in the session is a string, the
  program returns after the summary and the exit status is 0, whichever the verdict is.
  The exit status is 0 exactly when the program returned after the verdict or the user
  interrupted the run.
\<close>

theorem exit_codes:
  "(\<not> c \<longrightarrow> capture_and_analyze p c evs = \<lparr>outcome = ConnectionError, calls = []\<rparr>)
   \<and> (c \<and> receive_loop p initial_globals evs = Cancelled
        \<longrightarrow> outcome (capture_and_analyze p c evs) = Interrupt)
   \<and> (c \<and> (receive_loop p initial_globals evs = Completed g
             \<or> receive_loop p initial_globals evs = DeadlineReached g) \<and> total_tick_count g = 0
        \<longrightarrow> capture_and_analyze p c evs = \<lparr>outcome = NoTicksCaptured, calls = []\<rparr>)
   \<and> (c \<and> (receive_loop p initial_globals evs = Completed g
             \<or> receive_loop p initial_globals evs = DeadlineReached g) \<and> 0 < total_tick_count g
        \<longrightarrow> calls (capture_and_analyze p c evs) \<noteq> [])
   \<and> (verdict_of (outcome (capture_and_analyze p c evs)) = Some v
        \<and> (receive_loop p initial_globals evs = Completed g
             \<or> receive_loop p initial_globals evs = DeadlineReached g)
        \<and> (\<forall>k\<in>symbols (analysis g). is_str_key k)
        \<longrightarrow> (\<exists>a. outcome (capture_and_analyze p c evs) = VerdictProduced a v)
            \<and> exit_code (outcome (capture_and_analyze p c evs)) = 0)
   \<and> (exit_code (outcome (capture_and_analyze p c evs)) = 0) =
       ((\<exists>a w. outcome (capture_and_analyze p c evs) = VerdictProduced a w)
        \<or> outcome (capture_and_analyze p c evs) = Interrupt)
   \<and> exit_code Interrupt = 0 \<and> exit_code ConnectionError = 1 \<and> exit_code NoTicksCaptured = 1"
proof -
  have inv: "capture_inv g"
    if "receive_loop p initial_globals evs = Completed g \<or> receive_loop p initial_globals evs = DeadlineReached g"
    using that by (rule receive_loop_inv [OF capture_inv_initial])
  have a: "capture_and_analyze p c evs = \<lparr>outcome = NoTicksCaptured, calls = []\<rparr>"
    if "c" and "receive_loop p initial_globals evs = Completed g \<or> receive_loop p initial_globals evs = DeadlineReached g"
      and "total_tick_count g = 0"
  proof -
    from all_ticks_empty_iff [OF inv [OF that(2)]] that(3) have "all_ticks g = []" by simp
    with that(1,2) show ?thesis
      by (auto simp: capture_and_analyze_def after_capture_def)
  qed
  have b: "calls (capture_and_analyze p c evs) \<noteq> []"
    if "c" and "receive_loop p initial_globals evs = Completed g \<or> receive_loop p initial_globals evs = DeadlineReached g"
      and "0 < total_tick_count g"
  proof -
    from all_ticks_empty_iff [OF inv [OF that(2)]] that(3) have "all_ticks g \<noteq> []" by simp
    with that(1,2) show ?thesis
      by (auto simp: capture_and_analyze_def calls_after_capture)
  qed
  have s: "(\<exists>a. outcome (capture_and_analyze p c evs) = VerdictProduced a v)
            \<and> exit_code (outcome (capture_and_analyze p c evs)) = 0"
    if "verdict_of (outcome (capture_and_analyze p c evs)) = Some v"
      and "receive_loop p initial_globals evs = Completed g \<or> receive_loop p initial_globals evs = DeadlineReached g"
      and "\<forall>k\<in>symbols (analysis g). is_str_key k"
  proof -
    from session_symbols [OF that(1,2)] that(3) obtain a where
      "outcome (capture_and_analyze p c evs) = VerdictProduced a v" by simp
    then show ?thesis by simp
  qed
  have e: "(exit_code x = 0) = ((\<exists>a w. x = VerdictProduced a w) \<or> x = Interrupt)" for x
    by (cases x) simp_all
  show ?thesis
    using a b s e by (simp add: capture_and_analyze_def)
qed

theorem exit_codes_witness:
  "capture_and_analyze example_platform False [Object tick_x] = \<lparr>outcome = ConnectionError, calls = []\<rparr>
   \<and> outcome (capture_and_analyze example_platform True [Object tick_x, UserInterrupt]) = Interrupt
   \<and> capture_and_analyze example_platform True [Malformed] = \<lparr>outcome = NoTicksCaptured, calls = []\<rparr>
   \<and> calls (capture_and_analyze example_platform True [Object tick_x]) \<noteq> []
   \<and> verdict_of (outcome (capture_and_analyze example_platform True [Object tick_x])) = Some REAL
   \<and> exit_code (outcome (capture_and_analyze example_platform True [Object tick_x])) = 0"
proof -
  have 1: "\<not> False" by simp
  have 2: "True \<and> receive_loop example_platform initial_globals [Object tick_x, UserInterrupt] = Cancelled"
    by code_simp
  have 3: "True \<and> (receive_loop example_platform initial_globals [Malformed] = Completed no_tick_state
             \<or> receive_loop example_platform initial_globals [Malformed] = DeadlineReached no_tick_state)
           \<and> total_tick_count no_tick_state = 0"
    by code_simp
  have 4: "True \<and> (receive_loop example_platform initial_globals [Object tick_x] = Completed one_tick_state
             \<or> receive_loop example_platform initial_globals [Object tick_x] = DeadlineReached one_tick_state)
           \<and> 0 < total_tick_count one_tick_state"
    by code_simp
  have 5: "verdict_of (outcome (capture_and_analyze example_platform True [Object tick_x])) = Some REAL"
    by code_simp
  have 6: "\<forall>k\<in>symbols (analysis one_tick_state). is_str_key k"
    by code_simp
  from exit_codes [of False example_platform "[Object tick_x]"] 1
  have "capture_and_analyze example_platform False [Object tick_x] = \<lparr>outcome = ConnectionError, calls = []\<rparr>"
    by blast
  moreover from exit_codes [of True example_platform "[Object tick_x, UserInterrupt]"] 2
  have "outcome (capture_and_analyze example_platform True [Object tick_x, UserInterrupt]) = Interrupt"
    by blast
  moreover from exit_codes [of True example_platform "[Malformed]" no_tick_state] 3
  have "capture_and_analyze example_platform True [Malformed] = \<lparr>outcome = NoTicksCaptured, calls = []\<rparr>"
    by blast
  moreover from exit_codes [of True example_platform "[Object tick_x]" one_tick_state REAL] 4
  have "calls (capture_and_analyze example_platform True [Object tick_x]) \<noteq> []"
    by blast
  moreover from exit_codes [of True example_platform "[Object tick_x]" one_tick_state REAL] 4 5 6
  have "exit_code (outcome (capture_and_analyze example_platform True [Object tick_x])) = 0"
    by blast
  ultimately show ?thesis using 5 by blast
qed

text \<open>
  The claim C5 as it stands fails: a tick whose symbol is the JSON number 5 is accepted,
  the analyzers run and the verdict is printed, and then the summary raises
  \<^verbatim>\<open>TypeError\<close>: a verdict was produced and the exit status is 1.
\<close>

theorem verdict_with_exit_status_1:
  "is_tick tick_five
   \<and> symbol tick_five = Some (Scalar (SNum (PyInt 5)))
   \<and> verdict_of (outcome (capture_and_analyze example_platform True [Object tick_five])) = Some REAL
   \<and> exit_code (outcome (capture_and_analyze example_platform True [Object tick_five])) = 1"
proof -
  have 1: "is_tick tick_five \<and> symbol tick_five = Some (Scalar (SNum (PyInt 5)))"
    by code_simp
  have 2: "verdict_of (outcome (capture_and_analyze example_platform True [Object tick_five])) = Some REAL"
    by code_simp
  have 3: "exit_code (outcome (capture_and_analyze example_platform True [Object tick_five])) = 1"
    by code_simp
  from 1 2 3 show ?thesis by simp
qed

text \<open>
  C10. An exception in the receive loop other than the read timeout and the JSON decode
  error ends the session through the generic handler. The iteration raises when \<^verbatim>\<open>recv\<close>
  fails, when \<^verbatim>\<open>json.loads\<close> raises another exception than \<^verbatim>\<open>JSONDecodeError\<close>, when the
  message is no JSON object, when a tick has no \<^verbatim>\<open>symbol\<close> or an unhashable one, and when
  the line of one of the first five ticks cannot be printed (a key is missing, a value
  has the wrong type, the time is out of range). Whatever was captured before, the run
  is then a connection error with exit status 1 and no analyzer call. When the deadline
  ends the loop after at least one tick, the capture is partial and the analyzers run on
  it; and the analyzers run only when the loop stopped at the deadline or with the
  capture target reached. (The interrupt of the user is no \<^verbatim>\<open>Exception\<close>: it passes the
  generic handler and reaches that of \<^verbatim>\<open>__main__\<close>.)
\<close>

theorem other_exceptions_end_the_session:
  "loop_body p g RecvRaises = Raise OtherError
   \<and> loop_body p g (LoadsRaises e_loads) = Raise e_loads
   \<and> loop_body p g NotAnObject = Raise AttributeError
   \<and> (is_tick t \<and> symbol t = None \<longrightarrow> loop_body p g (Object t) = Raise (KeyError ''symbol''))
   \<and> (is_tick t \<and> symbol t = Some Container \<longrightarrow> loop_body p g (Object t) = Raise TypeError)
   \<and> (is_tick t \<and> symbol_key t = Inr s \<and> total_tick_count g < 5 \<and> tick_line_error p t = Some e_line
        \<longrightarrow> loop_body p g (Object t) = Raise e_line)
   \<and> (receive_loop p initial_globals pre = DeadlineReached g' \<and> loop_body p g' ev = Raise e
        \<longrightarrow> capture_and_analyze p True (pre @ ev # post) = \<lparr>outcome = ConnectionError, calls = []\<rparr>
            \<and> exit_code (outcome (capture_and_analyze p True (pre @ ev # post))) = 1)
   \<and> (receive_loop p initial_globals evs = DeadlineReached g' \<and> 0 < total_tick_count g'
        \<longrightarrow> \<not> enough_data g' \<and> all_ticks g' \<noteq> []
            \<and> capture_and_analyze p True evs = perform_analysis p (analysis g') (all_ticks g')
            \<and> hd (calls (capture_and_analyze p True evs)) = ''analyze_lp'')
   \<and> (calls (capture_and_analyze p c evs) \<noteq> []
        \<longrightarrow> c \<and> ((\<exists>g. receive_loop p initial_globals evs = DeadlineReached g)
               \<or> (\<exists>g. receive_loop p initial_globals evs = Completed g \<and> enough_data g)))"
proof -
  have k: "loop_body p g (Object t) = Raise (KeyError ''symbol'')" if "is_tick t" "symbol t = None"
    using that by (simp add: on_tick_no_key symbol_key_def getitem_def)
  have u: "loop_body p g (Object t) = Raise TypeError" if "is_tick t" "symbol t = Some Container"
    using that by (simp add: on_tick_no_key symbol_key_def getitem_def)
  have l: "loop_body p g (Object t) = Raise e_line"
    if "is_tick t" "symbol_key t = Inr s" "total_tick_count g < 5" "tick_line_error p t = Some e_line"
  proof -
    from that(3) have "total_tick_count (tick_state g s t) \<le> 5"
      by (simp add: tick_state_def store_tick_def)
    with that(4) have "log_tick p (tick_state g s t) t = Inl e_line"
      by (simp add: log_tick_def)
    with that(1,2) show ?thesis
      by (simp add: on_tick_key)
  qed
  have r: "capture_and_analyze p True (pre @ ev # post) = \<lparr>outcome = ConnectionError, calls = []\<rparr>
            \<and> exit_code (outcome (capture_and_analyze p True (pre @ ev # post))) = 1"
    if "receive_loop p initial_globals pre = DeadlineReached g'" "loop_body p g' ev = Raise e"
  proof -
    from receive_loop_append [OF that(1), of "ev # post"] that(2)
    have "receive_loop p initial_globals (pre @ ev # post) = Raised e" by simp
    then show ?thesis by (simp add: capture_and_analyze_def)
  qed
  have a: "\<not> enough_data g' \<and> all_ticks g' \<noteq> []
            \<and> capture_and_analyze p True evs = perform_analysis p (analysis g') (all_ticks g')
            \<and> hd (calls (capture_and_analyze p True evs)) = ''analyze_lp''"
    if "receive_loop p initial_globals evs = DeadlineReached g'" "0 < total_tick_count g'"
  proof -
    from that(1) have "capture_inv g'"
      using receive_loop_inv [OF capture_inv_initial] by blast
    with that(2) have ne: "all_ticks g' \<noteq> []"
      by (simp add: all_ticks_empty_iff)
    with that(1) have "capture_and_analyze p True evs = perform_analysis p (analysis g') (all_ticks g')"
      by (simp add: capture_and_analyze_def after_capture_def)
    moreover from that(1) have "\<not> enough_data g'"
      by (rule receive_loop_not_enough [OF not_enough_initial])
    ultimately show ?thesis
      using ne by (simp add: hd_calls_perform_analysis)
  qed
  have d: "c \<and> ((\<exists>g. receive_loop p initial_globals evs = DeadlineReached g)
               \<or> (\<exists>g. receive_loop p initial_globals evs = Completed g \<and> enough_data g))"
    if "calls (capture_and_analyze p c evs) \<noteq> []"
  proof (cases "receive_loop p initial_globals evs")
    case (Completed g1)
    with that receive_loop_Completed_enough [OF Completed] show ?thesis
      by (auto simp: capture_and_analyze_def split: if_splits)
  qed (use that in \<open>auto simp: capture_and_analyze_def split: if_splits\<close>)
  have s1: "loop_body p g RecvRaises = Raise OtherError"
    and s2: "loop_body p g NotAnObject = Raise AttributeError"
    and s3: "loop_body p g (LoadsRaises e_loads) = Raise e_loads"
    by simp_all
  from s1 s2 s3 k u l r a d show ?thesis
    by blast
qed

theorem other_exceptions_end_the_session_witness:
  "loop_body example_platform one_tick_state (Object tick_without_symbol) = Raise (KeyError ''symbol'')
   \<and> capture_and_analyze example_platform True ([Object tick_x] @ Object tick_without_symbol # [Object tick_x])
       = \<lparr>outcome = ConnectionError, calls = []\<rparr>
   \<and> tick_line_error example_platform tick_millis = Some ValueError
   \<and> loop_body example_platform one_tick_state (Object tick_millis) = Raise ValueError
   \<and> capture_and_analyze example_platform True ([Object tick_x] @ Object tick_millis # [Object tick_x])
       = \<lparr>outcome = ConnectionError, calls = []\<rparr>
   \<and> receive_loop example_platform initial_globals [Object tick_x] = DeadlineReached one_tick_state
   \<and> capture_and_analyze example_platform True [Object tick_x]
       = perform_analysis example_platform (analysis one_tick_state) (all_ticks one_tick_state)
   \<and> hd (calls (capture_and_analyze example_platform True [Object tick_x])) = ''analyze_lp''"
proof -
  note inst = other_exceptions_end_the_session [where p = example_platform and g = one_tick_state
      and pre = "[Object tick_x]" and g' = one_tick_state and post = "[Object tick_x]" and c = True
      and evs = "[Object tick_x]" and s = "KStr ''X''"]
  have 1: "is_tick tick_without_symbol \<and> symbol tick_without_symbol = None"
    by code_simp
  have 2: "receive_loop example_platform initial_globals [Object tick_x] = DeadlineReached one_tick_state"
    by code_simp
  have 3: "is_tick tick_millis \<and> symbol_key tick_millis = Inr (KStr ''X'') \<and> total_tick_count one_tick_state < 5
      \<and> tick_line_error example_platform tick_millis = Some ValueError"
    by code_simp
  have 4: "0 < total_tick_count one_tick_state"
    by code_simp
  from inst [where t = tick_without_symbol] 1
  have a: "loop_body example_platform one_tick_state (Object tick_without_symbol) = Raise (KeyError ''symbol'')"
    by blast
  from inst [where ev = "Object tick_without_symbol" and e = "KeyError ''symbol''"] 2 a
  have b: "capture_and_analyze example_platform True ([Object tick_x] @ Object tick_without_symbol # [Object tick_x])
       = \<lparr>outcome = ConnectionError, calls = []\<rparr>"
    by blast
  from inst [where t = tick_millis and e_line = ValueError] 3
  have c: "loop_body example_platform one_tick_state (Object tick_millis) = Raise ValueError"
    by blast
  from inst [where ev = "Object tick_millis" and e = ValueError] 2 c
  have d: "capture_and_analyze example_platform True ([Object tick_x] @ Object tick_millis # [Object tick_x])
       = \<lparr>outcome = ConnectionError, calls = []\<rparr>"
    by blast
  from inst 2 4
  have e: "capture_and_analyze example_platform True [Object tick_x]
       = perform_analysis example_platform (analysis one_tick_state) (all_ticks one_tick_state)
     \<and> hd (calls (capture_and_analyze example_platform True [Object tick_x])) = ''analyze_lp''"
    by blast
  from a b c d e 2 3 show ?thesis by blast
qed

section \<open>Properties of the analyzers\<close>










section \<open>Properties of the verdict\<close>



text \<open>
  C2, as amended. The verdict is a function of the observed labels and the evidence lines
  alone: the first match of the four rules, in which the two counts are the numbers of
  lines that contain the check mark, and that contain the warning sign or the cross mark.
  With equal counts and no simulated label the verdict is \<open>INCONCLUSIVE\<close>. When every line
  is counted on the side of its polarity only, these counts are the numbers of records of
  each polarity, and the verdict is the first match of the rules of the specification.
  This is so for the lines of an analysis of ticks whose symbols, as they are printed,
  hold none of the three glyphs.
\<close>

theorem verdict_is_first_match:
  "first_match indicator_rules (lp_sources a, evidence a) = Some (determine_verdict a)
   \<and> (list_all glyphs_agree (evidence a)
        \<longrightarrow> first_match verdict_rules (lp_sources a, evidence a) = Some (determine_verdict a))
   \<and> (list_all glyphs_agree (evidence a) \<and> KStr ''SIMULATED'' \<notin> lp_sources a
        \<and> count_simulated (evidence a) = count_real (evidence a)
        \<longrightarrow> determine_verdict a = INCONCLUSIVE)
   \<and> (KStr ''SIMULATED'' \<notin> lp_sources a \<and> simulated_indicators a = real_indicators a
        \<longrightarrow> determine_verdict a = INCONCLUSIVE)
   \<and> (lp_sources a = lp_sources b \<and> evidence a = evidence b
        \<longrightarrow> determine_verdict a = determine_verdict b)
   \<and> ((\<forall>t\<in>set ticks. \<forall>s. symbol t = Some (Scalar s) \<longrightarrow> marker_free (py_str p s))
        \<and> list_all glyphs_agree (evidence a0)
        \<and> verdict_of (outcome (perform_analysis p a0 ticks)) = Some v
        \<longrightarrow> (\<exists>a'. (outcome (perform_analysis p a0 ticks) = VerdictProduced a' v
                    \<or> outcome (perform_analysis p a0 ticks) = VerdictThenTraceback a' v TypeError)
                 \<and> list_all glyphs_agree (evidence a')
                 \<and> first_match verdict_rules (lp_sources a', evidence a') = Some v))"
proof -
  have i: "first_match indicator_rules (lp_sources x, evidence x) = Some (determine_verdict x)" for x
    by (simp add: indicator_rules_def determine_verdict_def simulated_indicators_def
        real_indicators_def)
  have r: "first_match verdict_rules (lp_sources x, evidence x) = Some (determine_verdict x)"
    if "list_all glyphs_agree (evidence x)" for x
    using counts_agree [OF that]
    by (simp add: verdict_rules_def determine_verdict_def simulated_indicators_def
        real_indicators_def)
  have t: "determine_verdict a = INCONCLUSIVE"
    if "KStr ''SIMULATED'' \<notin> lp_sources a \<and> simulated_indicators a = real_indicators a"
    using that by (simp add: determine_verdict_def)
  have u: "determine_verdict a = INCONCLUSIVE"
    if "list_all glyphs_agree (evidence a) \<and> KStr ''SIMULATED'' \<notin> lp_sources a
        \<and> count_simulated (evidence a) = count_real (evidence a)"
  proof -
    from that counts_agree [of "evidence a"] have "simulated_indicators a = real_indicators a"
      by (simp add: simulated_indicators_def real_indicators_def)
    with that t show ?thesis by blast
  qed
  have f: "determine_verdict a = determine_verdict b"
    if "lp_sources a = lp_sources b \<and> evidence a = evidence b"
    using that by (simp add: determine_verdict_def simulated_indicators_def real_indicators_def)
  have s: "\<exists>a'. (outcome (perform_analysis p a0 ticks) = VerdictProduced a' v
                    \<or> outcome (perform_analysis p a0 ticks) = VerdictThenTraceback a' v TypeError)
                 \<and> list_all glyphs_agree (evidence a')
                 \<and> first_match verdict_rules (lp_sources a', evidence a') = Some v"
    if "(\<forall>t\<in>set ticks. \<forall>s. symbol t = Some (Scalar s) \<longrightarrow> marker_free (py_str p s))
        \<and> list_all glyphs_agree (evidence a0)
        \<and> verdict_of (outcome (perform_analysis p a0 ticks)) = Some v"
  proof -
    from that have m: "\<And>t s. t \<in> set ticks \<Longrightarrow> symbol t = Some (Scalar s) \<Longrightarrow> marker_free (py_str p s)"
      and e: "list_all glyphs_agree (evidence a0)"
      and o: "verdict_of (outcome (perform_analysis p a0 ticks)) = Some v"
      by blast+
    have "\<exists>a'. list_all glyphs_agree (evidence a') \<and> v = determine_verdict a'
       \<and> (outcome (perform_analysis p a0 ticks) = VerdictProduced a' v
          \<or> outcome (perform_analysis p a0 ticks) = VerdictThenTraceback a' v TypeError)"
      by (rule perform_analysis_agree [OF o e]) (rule m)
    then obtain a' where
      a': "list_all glyphs_agree (evidence a')" "v = determine_verdict a'"
      "outcome (perform_analysis p a0 ticks) = VerdictProduced a' v
        \<or> outcome (perform_analysis p a0 ticks) = VerdictThenTraceback a' v TypeError"
      by blast
    with r [OF a'(1)] show ?thesis by blast
  qed
  from i [of a] r [of a] t u f s show ?thesis by blast
qed

theorem verdict_is_first_match_witness:
  "list_all glyphs_agree [lp_real_msg, ts_regular_msg 0]
   \<and> first_match verdict_rules ({KStr ''YOFX''}, [lp_real_msg, ts_regular_msg 0]) = Some INCONCLUSIVE
   \<and> determine_verdict \<lparr>lp_sources = {KStr ''YOFX''}, symbols = {}, evidence = [lp_real_msg, ts_regular_msg 0]\<rparr>
       = INCONCLUSIVE
   \<and> determine_verdict \<lparr>lp_sources = {KStr ''YOFX''}, symbols = {KStr ''EURUSD''},
         evidence = [lp_real_msg, ts_regular_msg 0]\<rparr>
       = determine_verdict \<lparr>lp_sources = {KStr ''YOFX''}, symbols = {}, evidence = [lp_real_msg, ts_regular_msg 0]\<rparr>
   \<and> list_all (\<lambda>t. symbol t = Some (Scalar (SStr ''X''))) simulated_pair
   \<and> marker_free (py_str example_platform (SStr ''X''))
   \<and> first_match verdict_rules
        (case outcome (perform_analysis example_platform empty_analysis simulated_pair) of
           VerdictProduced a' v \<Rightarrow> (lp_sources a', evidence a'))
       = Some SIMULATED"
proof -
  let ?a = "\<lparr>lp_sources = {KStr ''YOFX''}, symbols = {}, evidence = [lp_real_msg, ts_regular_msg 0]\<rparr>"
  let ?b = "\<lparr>lp_sources = {KStr ''YOFX''}, symbols = {KStr ''EURUSD''}, evidence = [lp_real_msg, ts_regular_msg 0]\<rparr>"
  have g: "list_all glyphs_agree [lp_real_msg, ts_regular_msg 0]"
    by (simp add: glyphs_agree_messages)
  have l: "KStr ''SIMULATED'' \<notin> lp_sources ?a"
    by simp
  have c: "simulated_indicators ?a = real_indicators ?a"
    by code_simp
  have e: "lp_sources ?b = lp_sources ?a \<and> evidence ?b = evidence ?a"
    by simp
  from verdict_is_first_match [of ?a ?a] l c have 1: "determine_verdict ?a = INCONCLUSIVE"
    by blast
  from verdict_is_first_match [of ?a ?a] g have "first_match verdict_rules (lp_sources ?a, evidence ?a)
      = Some (determine_verdict ?a)"
    by simp
  with 1 have 2: "first_match verdict_rules ({KStr ''YOFX''}, [lp_real_msg, ts_regular_msg 0]) = Some INCONCLUSIVE"
    by simp
  from verdict_is_first_match [of ?b ?a] e have 3: "determine_verdict ?b = determine_verdict ?a"
    by blast
  have 4: "list_all (\<lambda>t. symbol t = Some (Scalar (SStr ''X''))) simulated_pair"
    by code_simp
  have 5: "marker_free (py_str example_platform (SStr ''X''))"
    by code_simp
  have 6: "list_all glyphs_agree (evidence empty_analysis)"
    by code_simp
  have 7: "verdict_of (outcome (perform_analysis example_platform empty_analysis simulated_pair)) = Some SIMULATED"
    by code_simp
  have 8: "\<forall>t\<in>set simulated_pair. \<forall>s. symbol t = Some (Scalar s) \<longrightarrow> marker_free (py_str example_platform s)"
    using 4 5 by (auto simp: list_all_iff)
  have 9: "symbols_line empty_analysis = None \<and> symbols empty_analysis = {}"
    by code_simp
  from verdict_is_first_match [where ticks = simulated_pair and p = example_platform and ?a0.0 = empty_analysis
      and v = SIMULATED] 6 7 8
  obtain a' where a': "outcome (perform_analysis example_platform empty_analysis simulated_pair) = VerdictProduced a' SIMULATED
                    \<or> outcome (perform_analysis example_platform empty_analysis simulated_pair) = VerdictThenTraceback a' SIMULATED TypeError"
    and f: "first_match verdict_rules (lp_sources a', evidence a') = Some SIMULATED"
    by blast
  from 7 perform_analysis_verdict [of example_platform empty_analysis simulated_pair SIMULATED] 9
  obtain a2 where "outcome (perform_analysis example_platform empty_analysis simulated_pair) = VerdictProduced a2 SIMULATED"
    by (auto simp: symbols_line_def)
  with a' f have "first_match verdict_rules
        (case outcome (perform_analysis example_platform empty_analysis simulated_pair) of
           VerdictProduced a' v \<Rightarrow> (lp_sources a', evidence a'))
       = Some SIMULATED"
    by auto
  with g 1 2 3 4 5 show ?thesis by blast
qed

text \<open>
  The claim C2 as it stands fails. A session receives five ticks whose symbol is the
  cross mark. Their four evidence records are three that support real data (the label,
  the price pattern, the spread) and one that supports simulated data (the timestamps),
  and the real-gateway label is observed: rule 2 of the claim gives \<open>REAL\<close>. The program
  prints \<open>INCONCLUSIVE\<close>, because the two lines that print the symbol are counted on both
  sides.
\<close>

theorem glyph_in_symbol_changes_verdict:
  "capture_and_analyze example_platform True (map Object cross_ticks)
     = \<lparr>outcome = VerdictProduced cross_analysis INCONCLUSIVE,
        calls = [''analyze_lp'', ''analyze_price_patterns'', ''analyze_timestamps'', ''analyze_spread'']\<rparr>
   \<and> map polarity_of cross_evidence
       = [Some SupportsReal, Some SupportsReal, Some SupportsSimulated, Some SupportsReal]
   \<and> count_real cross_evidence = 3
   \<and> count_simulated cross_evidence = 1
   \<and> KStr ''YOFX'' \<in> lp_sources cross_analysis
   \<and> KStr ''SIMULATED'' \<notin> lp_sources cross_analysis
   \<and> first_match verdict_rules (lp_sources cross_analysis, evidence cross_analysis) = Some REAL
   \<and> real_indicators cross_analysis = 3
   \<and> simulated_indicators cross_analysis = 3"
proof -
  have 1: "capture_and_analyze example_platform True (map Object cross_ticks)
     = \<lparr>outcome = VerdictProduced cross_analysis INCONCLUSIVE,
        calls = [''analyze_lp'', ''analyze_price_patterns'', ''analyze_timestamps'', ''analyze_spread'']\<rparr>"
    by code_simp
  have 2: "map polarity_of cross_evidence
       = [Some SupportsReal, Some SupportsReal, Some SupportsSimulated, Some SupportsReal]"
    by code_simp
  have 3: "count_real cross_evidence = 3 \<and> count_simulated cross_evidence = 1"
    by code_simp
  have 4: "KStr ''YOFX'' \<in> lp_sources cross_analysis \<and> KStr ''SIMULATED'' \<notin> lp_sources cross_analysis"
    by code_simp
  have 5: "first_match verdict_rules (lp_sources cross_analysis, evidence cross_analysis) = Some REAL"
    by code_simp
  have 6: "real_indicators cross_analysis = 3 \<and> simulated_indicators cross_analysis = 3"
    by code_simp
  from 1 2 3 4 5 6 show ?thesis by simp
qed

end
